(* ===== verification/Rust_Prelude.thy ===== *)
theory Rust_Prelude
  imports Main "HOL-Library.Word" "HOL-Library.DAList"
begin

text \<open>
  What every theory of the development shares: the machine integers and the standard
  containers the Rust sources use, and the generic lemmas about them.

  \<^item> \<open>u8\<close> \dots \<open>u128\<close> are machine words; \<open>+\<close>, \<open>-\<close> and \<open>*\<close> wrap around, which is what a
    release build of the crates does.  \<open>usize\<close> (lengths and indices of in-memory
    collections) and \<open>Duration\<close> (in nanoseconds) are natural numbers.
  \<^item> A \<open>HashMap\<close> or \<open>BTreeMap\<close> is an association list with distinct keys (the type
    of \<open>HOL-Library.DAList\<close>); the list order plays the iteration order, on which no
    property depends.  A \<open>HashSet\<close> is a map into the unit type, as in the Rust library.
\<close>

unbundle bit_operations_syntax

named_theorems hm_simps \<open>evaluation of the container operations\<close>

section \<open>Machine integers\<close>

type_synonym u8 = "8 word"
type_synonym u32 = "32 word"
type_synonym u64 = "64 word"
type_synonym u128 = "128 word"
type_synonym usize = nat
type_synonym duration = nat
type_synonym bytes = "u8 list"

text \<open>\<open>u64::MAX\<close>, \<open>saturating_sub\<close>, and \<open>Duration::as_millis() as u64\<close>.\<close>

abbreviation u64_MAX :: u64 where
  "u64_MAX \<equiv> - 1"

definition saturating_sub :: "'a::len word \<Rightarrow> 'a word \<Rightarrow> 'a word" where
  "saturating_sub a b = (if a < b then 0 else a - b)"

definition as_millis_u64 :: "duration \<Rightarrow> u64" where
  "as_millis_u64 d = word_of_nat (d div 1000000)"

definition from_millis :: "nat \<Rightarrow> duration" where
  "from_millis n = n * 1000000"

lemma unat_saturating_sub: "unat (saturating_sub a b) = unat a - unat b"
  by (auto simp: saturating_sub_def word_less_nat_alt not_less unat_sub word_le_nat_alt)

lemma unat_less_u64: "unat (x :: u64) < 18446744073709551616"
  using unsigned_less [of x] by simp

lemma unat_Suc_no_wrap: "(x :: u64) < x + 1 \<Longrightarrow> unat (x + 1) = Suc (unat x)"
  by unat_arith

lemma word_Suc_no_wrap: "(x :: u64) < x + 1 \<longleftrightarrow> x \<noteq> u64_MAX"
proof -
  have "x < x + 1 \<longleftrightarrow> x + 1 \<noteq> 0" by unat_arith
  then show ?thesis by (simp add: eq_neg_iff_add_eq_0)
qed

lemma unat_succ_gt: "(x :: u64) < y \<Longrightarrow> y = x + 1 \<Longrightarrow> unat y = Suc (unat x)"
  using unat_Suc_no_wrap by blast

lemma unat_mult_u64:
  "unat (a :: u64) * unat b \<le> 18446744073709551615 \<Longrightarrow> unat (a * b) = unat a * unat b"
  by (simp add: unat_word_ariths)

lemma unat_add_u64:
  "unat (a :: u64) + unat b \<le> 18446744073709551615 \<Longrightarrow> unat (a + b) = unat a + unat b"
  by (simp add: unat_word_ariths)

lemma unat_u64_MAX: "unat u64_MAX = 18446744073709551615"
  by (simp add: unsigned_minus_1_eq_mask mask_eq_exp_minus_1)

text \<open>Little-endian bytes of a word (\<open>to_le_bytes\<close>), at a length that covers the word.\<close>

definition le_bytes :: "nat \<Rightarrow> 'a::len word \<Rightarrow> bytes" where
  "le_bytes n w = map (\<lambda>i. ucast (drop_bit (8 * i) w)) [0..<n]"

lemma length_le_bytes [simp]: "length (le_bytes n w) = n"
  by (simp add: le_bytes_def)

lemma le_bytes_inj:
  assumes eq: "le_bytes n v = le_bytes n w" and len: "LENGTH('a) \<le> 8 * n"
  shows "v = (w :: 'a::len word)"
proof (rule bit_word_eqI)
  fix k assume k: "k < LENGTH('a)"
  define i where "i = k div 8"
  have i: "i < n" and ki: "k = 8 * i + k mod 8"
    using k len by (auto simp: i_def less_mult_imp_div_less mult.commute)
  have "le_bytes n v ! i = le_bytes n w ! i" by (simp add: eq)
  then have "bit (ucast (drop_bit (8 * i) v) :: u8) (k mod 8)
           = bit (ucast (drop_bit (8 * i) w) :: u8) (k mod 8)"
    using i by (simp add: le_bytes_def)
  then show "bit v k = bit w k"
    using ki by (simp add: bit_ucast_iff bit_drop_bit_eq)
qed

section \<open>Maps and sets\<close>

type_synonym ('k, 'v) hmap = "('k, 'v) alist"
type_synonym 'a hset = "('a, unit) alist"

abbreviation hm_empty :: "('k, 'v) hmap" where
  "hm_empty \<equiv> DAList.empty"

abbreviation hm_get :: "('k, 'v) hmap \<Rightarrow> 'k \<Rightarrow> 'v option" where
  "hm_get \<equiv> DAList.lookup"

abbreviation hm_insert :: "'k \<Rightarrow> 'v \<Rightarrow> ('k, 'v) hmap \<Rightarrow> ('k, 'v) hmap" where
  "hm_insert \<equiv> DAList.update"

abbreviation hm_remove :: "'k \<Rightarrow> ('k, 'v) hmap \<Rightarrow> ('k, 'v) hmap" where
  "hm_remove \<equiv> DAList.delete"

definition hm_entries :: "('k, 'v) hmap \<Rightarrow> ('k \<times> 'v) list" where
  "hm_entries m = DAList.impl_of m"

definition hm_keys :: "('k, 'v) hmap \<Rightarrow> 'k list" where
  "hm_keys m = map fst (hm_entries m)"

definition hm_values :: "('k, 'v) hmap \<Rightarrow> 'v list" where
  "hm_values m = map snd (hm_entries m)"

definition hm_len :: "('k, 'v) hmap \<Rightarrow> usize" where
  "hm_len m = length (hm_entries m)"

definition hm_contains :: "('k, 'v) hmap \<Rightarrow> 'k \<Rightarrow> bool" where
  "hm_contains m k \<longleftrightarrow> hm_get m k \<noteq> None"

definition hm_retain :: "('k \<Rightarrow> 'v \<Rightarrow> bool) \<Rightarrow> ('k, 'v) hmap \<Rightarrow> ('k, 'v) hmap" where
  "hm_retain P m = DAList.filter (\<lambda>(k, v). P k v) m"

text \<open>\<open>if let Some(v) = map.get_mut(k) { *v = f(v) }\<close>.\<close>

definition hm_modify :: "'k \<Rightarrow> ('v \<Rightarrow> 'v) \<Rightarrow> ('k, 'v) hmap \<Rightarrow> ('k, 'v) hmap" where
  "hm_modify k f m = (case hm_get m k of None \<Rightarrow> m | Some v \<Rightarrow> hm_insert k (f v) m)"

text \<open>\<open>iter().collect()\<close> into a map: a later entry replaces an earlier one with its key.\<close>

definition hm_collect :: "('k \<times> 'v) list \<Rightarrow> ('k, 'v) hmap" where
  "hm_collect kvs = fold (\<lambda>(k, v). hm_insert k v) kvs hm_empty"

abbreviation hs_insert :: "'a \<Rightarrow> 'a hset \<Rightarrow> 'a hset" where
  "hs_insert x \<equiv> hm_insert x ()"

definition hs_collect :: "'a list \<Rightarrow> 'a hset" where
  "hs_collect xs = fold hs_insert xs hm_empty"

text \<open>A \<open>BTreeMap\<close> iterates in key order; collecting a \<open>BTreeSet\<close> sorts and drops duplicates.\<close>

definition bm_keys :: "('k::linorder, 'v) hmap \<Rightarrow> 'k list" where
  "bm_keys m = sort (hm_keys m)"

definition bm_values :: "('k::linorder, 'v) hmap \<Rightarrow> 'v list" where
  "bm_values m = map (\<lambda>k. the (hm_get m k)) (bm_keys m)"

definition bset_list :: "'a::linorder list \<Rightarrow> 'a list" where
  "bset_list xs = sort (remdups xs)"

text \<open>\<open>iter().position(P)\<close>.\<close>

fun position :: "('a \<Rightarrow> bool) \<Rightarrow> 'a list \<Rightarrow> usize option" where
  "position P [] = None"
| "position P (x # xs) = (if P x then Some 0 else map_option Suc (position P xs))"

lemma hm_entries_iff: "(k, v) \<in> set (hm_entries m) \<longleftrightarrow> hm_get m k = Some v"
  unfolding hm_entries_def by (metis DAList.impl_of_distinct DAList.lookup.rep_eq map_of_eq_Some_iff)

lemma hm_keys_iff: "k \<in> set (hm_keys m) \<longleftrightarrow> hm_contains m k"
proof -
  have "k \<in> set (hm_keys m) \<longleftrightarrow> (\<exists>v. (k, v) \<in> set (hm_entries m))"
    by (force simp: hm_keys_def)
  then show ?thesis by (auto simp: hm_contains_def hm_entries_iff)
qed

lemma hm_values_iff: "v \<in> set (hm_values m) \<longleftrightarrow> (\<exists>k. hm_get m k = Some v)"
proof -
  have "v \<in> set (hm_values m) \<longleftrightarrow> (\<exists>k. (k, v) \<in> set (hm_entries m))"
    by (force simp: hm_values_def)
  then show ?thesis by (simp add: hm_entries_iff)
qed

lemma distinct_hm_keys [simp]: "distinct (hm_keys m)"
  by (simp add: hm_keys_def hm_entries_def)

lemma hm_get_retain [simp]:
  "hm_get (hm_retain P m) k = (case hm_get m k of None \<Rightarrow> None
     | Some v \<Rightarrow> if P k v then Some v else None)"
proof (cases "hm_get m k")
  case None
  then have "hm_get (hm_retain P m) k = None"
    by (auto simp: hm_retain_def DAList.lookup.rep_eq DAList.filter.rep_eq map_of_eq_None_iff)
  then show ?thesis using None by simp
next
  case (Some v)
  then have *: "(k, v) \<in> set (DAList.impl_of m)"
    by (metis hm_entries_def hm_entries_iff)
  have "hm_get (hm_retain P m) k = (if P k v then Some v else None)"
  proof (cases "P k v")
    case True
    with * have "(k, v) \<in> set (hm_entries (hm_retain P m))"
      by (simp add: hm_entries_def hm_retain_def DAList.filter.rep_eq)
    then show ?thesis using True by (simp add: hm_entries_iff)
  next
    case False
    have "hm_get (hm_retain P m) k \<noteq> Some w" for w
    proof
      assume "hm_get (hm_retain P m) k = Some w"
      then have "(k, w) \<in> set (hm_entries (hm_retain P m))" by (simp add: hm_entries_iff)
      then have "(k, w) \<in> set (hm_entries m)" "P k w"
        by (auto simp: hm_entries_def hm_retain_def DAList.filter.rep_eq)
      then show False using Some False by (auto simp: hm_entries_iff)
    qed
    then show ?thesis using False by (cases "hm_get (hm_retain P m) k") auto
  qed
  then show ?thesis using Some by simp
qed

lemma hm_get_insert:
  "hm_get (hm_insert k v m) k' = (if k' = k then Some v else hm_get m k')"
  by (simp add: DAList.lookup_update)

lemma hm_get_modify:
  "hm_get (hm_modify k f m) k' = (if k' = k then map_option f (hm_get m k) else hm_get m k')"
  by (auto simp: hm_modify_def hm_get_insert split: option.splits)

lemma hm_contains_insert [simp]: "hm_contains (hm_insert k v m) k' \<longleftrightarrow> k' = k \<or> hm_contains m k'"
  by (simp add: hm_contains_def DAList.lookup_update)

lemma hm_contains_remove [simp]: "hm_contains (hm_remove k m) k' \<longleftrightarrow> k' \<noteq> k \<and> hm_contains m k'"
  by (simp add: hm_contains_def)

lemma hm_contains_empty [simp]: "\<not> hm_contains hm_empty k"
  by (simp add: hm_contains_def)

lemma hm_contains_retainD: "hm_contains (hm_retain P m) k \<Longrightarrow> hm_contains m k"
  by (auto simp: hm_contains_def split: option.splits if_splits)

lemma hm_contains_retain_keys [simp]:
  "hm_contains (hm_retain (\<lambda>k _. P k) m) k \<longleftrightarrow> hm_contains m k \<and> P k"
  by (auto simp: hm_contains_def split: option.splits)

lemma hm_len_empty [simp]: "hm_len hm_empty = 0"
  by (simp add: hm_len_def hm_entries_def DAList.empty.rep_eq)

lemma hm_len_retain: "hm_len (hm_retain P m) \<le> hm_len m"
  by (simp add: hm_len_def hm_entries_def hm_retain_def DAList.filter.rep_eq)

lemma hm_len_card: "hm_len m = card (dom (hm_get m))"
proof -
  have "hm_len m = card (set (hm_keys m))"
    using distinct_card [OF distinct_hm_keys, of m] by (simp add: hm_len_def hm_keys_def)
  also have "set (hm_keys m) = dom (hm_get m)"
    by (auto simp: hm_keys_iff hm_contains_def)
  finally show ?thesis .
qed

lemma finite_dom_hm [simp]: "finite (dom (hm_get m))"
proof -
  have "dom (hm_get m) = set (hm_keys m)" by (auto simp: hm_keys_iff hm_contains_def)
  then show ?thesis by simp
qed

lemma hm_len_insert: "hm_len (hm_insert k v m) = (if hm_contains m k then hm_len m else Suc (hm_len m))"
proof -
  have "dom (hm_get (hm_insert k v m)) = insert k (dom (hm_get m))"
    by (auto simp: DAList.lookup_update split: if_splits)
  then show ?thesis by (simp add: hm_len_card card_insert_if hm_contains_def domIff)
qed

lemma hm_len_remove: "hm_len (hm_remove k m) = (if hm_contains m k then hm_len m - 1 else hm_len m)"
  by (simp add: hm_len_card hm_contains_def domIff)

lemma hm_len_remove_less: "hm_get m k = Some v \<Longrightarrow> hm_len (hm_remove k m) < hm_len m"
  by (auto simp: hm_len_card intro!: psubset_card_mono)

lemma hm_len_remove_le: "hm_len (hm_remove k m) \<le> hm_len m"
  by (simp add: hm_len_remove)

lemma hm_get_collect: "hm_get (hm_collect kvs) k = map_of (rev kvs) k"
proof -
  have "hm_get (fold (\<lambda>(k, v). hm_insert k v) kvs m) k
      = (case map_of (rev kvs) k of None \<Rightarrow> hm_get m k | Some v \<Rightarrow> Some v)" for m
    by (induction kvs arbitrary: m)
      (auto simp: DAList.lookup_update map_add_def split: option.splits if_splits)
  then show ?thesis by (simp add: hm_collect_def split: option.splits)
qed

lemma hs_contains_collect [simp]: "hm_contains (hs_collect xs) x \<longleftrightarrow> x \<in> set xs"
proof -
  have "hm_contains (fold hs_insert xs m) x \<longleftrightarrow> x \<in> set xs \<or> hm_contains m x" for m
    by (induction xs arbitrary: m) auto
  then show ?thesis by (simp add: hs_collect_def)
qed

lemma hm_no_entries: "hm_len m = 0 \<longleftrightarrow> (\<forall>k. hm_get m k = None)"
proof -
  have "hm_len m = 0 \<longleftrightarrow> dom (hm_get m) = {}" by (simp add: hm_len_card)
  then show ?thesis by (auto simp: dom_def)
qed

lemma set_bm_values: "v \<in> set (bm_values m) \<longleftrightarrow> (\<exists>k. hm_get m k = Some v)"
proof -
  have "v \<in> set (bm_values m) \<longleftrightarrow> (\<exists>k. hm_contains m k \<and> v = the (hm_get m k))"
    by (auto simp: bm_values_def bm_keys_def hm_keys_iff)
  then show ?thesis by (force simp: hm_contains_def)
qed

lemma set_bset_list [simp]: "set (bset_list xs) = set xs"
  by (simp add: bset_list_def)

lemma distinct_bset_list [simp]: "distinct (bset_list xs)"
  by (simp add: bset_list_def)

lemma sorted_bset_list [simp]: "sorted (bset_list xs)"
  by (simp add: bset_list_def)

lemma position_Some: "position P xs = Some i \<Longrightarrow> i < length xs \<and> P (xs ! i) \<and> (\<forall>j < i. \<not> P (xs ! j))"
proof (induction xs arbitrary: i)
  case (Cons x xs)
  then show ?case by (cases i) (auto split: if_splits simp: less_Suc_eq_0_disj)
qed simp

lemma position_None: "position P xs = None \<longleftrightarrow> (\<forall>x \<in> set xs. \<not> P x)"
  by (induction xs) auto

lemma position_nth:
  "distinct xs \<Longrightarrow> i < length xs \<Longrightarrow> position (\<lambda>x. x = xs ! i) xs = Some i"
proof (induction xs arbitrary: i)
  case (Cons x xs)
  then show ?case by (cases i) auto
qed simp

lemma hm_get_collect_distinct:
  assumes "distinct (map fst kvs)"
  shows "hm_get (hm_collect kvs) = map_of kvs"
proof -
  have "map_of (rev kvs) = map_of kvs"
    using assms by (intro map_of_eqI) (auto simp: map_of_eq_Some_iff rev_map [symmetric])
  then show ?thesis by (auto simp: hm_get_collect)
qed

lemma find_in_set: "List.find P xs = Some x \<Longrightarrow> x \<in> set xs \<and> P x"
  by (induction xs) (auto split: if_splits)

text \<open>Evaluation of the iteration order on concrete maps.\<close>

lemma hm_entries_eval [hm_simps]:
  "hm_entries hm_empty = []"
  "hm_entries (hm_insert k v m) = AList.update k v (hm_entries m)"
  "hm_entries (hm_remove k m) = AList.delete k (hm_entries m)"
  "hm_entries (hm_retain P m) = filter (\<lambda>(k, v). P k v) (hm_entries m)"
  by (simp_all add: hm_entries_def hm_retain_def DAList.empty.rep_eq DAList.update.rep_eq
      DAList.delete.rep_eq DAList.filter.rep_eq)

lemmas hm_eval = hm_entries_eval hm_keys_def hm_values_def hm_len_def hm_contains_def

end
