(* ===== verification/Identifiers.thy ===== *)
theory Identifiers
  imports Rust_Prelude
begin

text \<open>
  The identifiers and small value types of \<open>crates/types\<close>: \<open>Hash\<close>, the newtypes over
  \<open>u64\<close>, \<open>VotePower\<close> with the quorum rule, and the domain-separated signing messages.

  A \<open>Hash\<close> is 32 bytes compared lexicographically.  It is modelled by the 256-bit word
  whose big-endian bytes it is, so that the word order is the byte order of the code.
  Blake3 is code outside the repository and appears as the argument \<open>blake3\<close>.
\<close>

type_synonym hash = "256 word"
type_synonym validator_id = u64
type_synonym shard_group_id = u64
type_synonym block_height = u64
type_synonym node_id = "240 word"
type_synonym public_key = bytes
type_synonym signature = bytes

section \<open>Hash\<close>

definition Hash_ZERO :: hash where
  "Hash_ZERO = 0"

definition Hash_MAX :: hash where
  "Hash_MAX = - 1"

definition as_bytes :: "hash \<Rightarrow> bytes" where
  "as_bytes h = rev (le_bytes 32 h)"

definition Hash_from_parts :: "(bytes \<Rightarrow> hash) \<Rightarrow> bytes list \<Rightarrow> hash" where
  "Hash_from_parts blake3 parts = blake3 (concat parts)"

lemma length_as_bytes [simp]: "length (as_bytes h) = 32"
  by (simp add: as_bytes_def)

lemma as_bytes_inj: "as_bytes a = as_bytes b \<Longrightarrow> a = b"
  using le_bytes_inj [of 32 a b] by (simp add: as_bytes_def)

section \<open>NodeId\<close>

text \<open>A \<open>NodeId\<close> is 30 bytes; like a hash it is the word with these big-endian bytes.\<close>

definition node_bytes :: "node_id \<Rightarrow> bytes" where
  "node_bytes n = rev (le_bytes 30 n)"

definition node_from_bytes :: "bytes \<Rightarrow> node_id" where
  "node_from_bytes bs = foldl (\<lambda>acc b. push_bit 8 acc OR ucast b) 0 bs"

lemma bit_from_bytes:
  assumes "k < LENGTH('a)"
  shows "bit (foldl (\<lambda>acc b. push_bit 8 acc OR ucast b) a (rev (map f [0..<n]))) k =
      (if k < 8 * n then bit (f (k div 8) :: u8) (k mod 8) else bit (a :: 'a::len word) (k - 8 * n))"
proof (induction n arbitrary: a)
  case (Suc n)
  have high: "\<not> bit (f n) i" if "8 \<le> i" for i
    using bit_imp_le_length [of "f n" i] that by auto
  show ?case
  proof (cases "k < 8 * n")
    case True
    then show ?thesis by (simp add: Suc)
  next
    case False
    then obtain r where k: "k = 8 * n + r" by (meson le_Suc_ex not_less)
    show ?thesis
    proof (cases "r < 8")
      case True
      then show ?thesis using assms k by (simp add: Suc [unfolded k] bit_push_bit_iff bit_or_iff bit_ucast_iff)
    next
      case False
      then show ?thesis using assms k high [of r] by (simp add: Suc [unfolded k] bit_push_bit_iff bit_or_iff bit_ucast_iff)
    qed
  qed
qed simp

lemma node_from_node_bytes [simp]: "node_from_bytes (node_bytes n) = n"
proof (rule bit_word_eqI)
  fix k assume "k < LENGTH(240)"
  then show "bit (node_from_bytes (node_bytes n)) k = bit n k"
    unfolding node_from_bytes_def node_bytes_def le_bytes_def
    by (subst bit_from_bytes) (simp_all add: bit_ucast_iff bit_drop_bit_eq)
qed

definition u64_from_le_bytes :: "bytes \<Rightarrow> u64" where
  "u64_from_le_bytes bs = foldr (\<lambda>b acc. ucast b OR push_bit 8 acc) bs 0"

section \<open>BlockHeight\<close>

definition GENESIS :: block_height where
  "GENESIS = 0"

definition next_height :: "block_height \<Rightarrow> block_height" where
  "next_height h = h + 1"

definition prev_height :: "block_height \<Rightarrow> block_height option" where
  "prev_height h = (if h > 0 then Some (h - 1) else None)"

lemma prev_next_height: "h \<noteq> u64_MAX \<Longrightarrow> prev_height (next_height h) = Some h"
  by (simp add: prev_height_def next_height_def word_gt_0 eq_neg_iff_add_eq_0 add.commute)

section \<open>VotePower\<close>

definition VotePower_MIN :: u64 where
  "VotePower_MIN = 1"

definition VotePower_new :: "u64 \<Rightarrow> u64" where
  "VotePower_new p = max p 1"

definition VotePower_sum :: "u64 list \<Rightarrow> u64" where
  "VotePower_sum ps = sum_list ps"

definition has_quorum :: "u64 \<Rightarrow> u64 \<Rightarrow> bool" where
  "has_quorum voted total_power \<longleftrightarrow> voted * 3 > total_power * 2"

text \<open>
  The products do not wrap for powers up to \<open>u64::MAX / 3\<close>; below it the word comparison is
  the comparison of the numbers.
\<close>

definition power_in_range :: "u64 \<Rightarrow> bool" where
  "power_in_range p \<longleftrightarrow> unat p \<le> 6148914691236517205"

lemma unat_times3: "power_in_range p \<Longrightarrow> unat (p * 3) = unat p * 3"
  by (simp add: power_in_range_def unat_word_ariths)

lemma unat_times2: "power_in_range p \<Longrightarrow> unat (p * 2) = unat p * 2"
  by (simp add: power_in_range_def unat_word_ariths)

lemma has_quorum_iff:
  "power_in_range voted \<Longrightarrow> power_in_range total_power \<Longrightarrow>
   has_quorum voted total_power \<longleftrightarrow> 2 * unat total_power < 3 * unat voted"
  by (simp add: has_quorum_def word_less_nat_alt unat_times3 unat_times2 mult.commute)

lemma power_in_range_mono: "power_in_range p \<Longrightarrow> unat q \<le> unat p \<Longrightarrow> power_in_range q"
  by (simp add: power_in_range_def)

section \<open>The quorum contract\<close>

text \<open>
  What a certificate consumer relies on: any two quorums of a committee share a member
  outside every tolerated set of faulty members.  The clients below use only this law.
\<close>

locale quorum_system =
  fixes is_quorum :: "'v set \<Rightarrow> bool"
    and tolerated :: "'v set \<Rightarrow> bool"
  assumes intersect: "is_quorum A \<Longrightarrow> is_quorum B \<Longrightarrow> tolerated F \<Longrightarrow> \<exists>v \<in> A \<inter> B. v \<notin> F"
begin

lemma quorum_nonempty: "is_quorum A \<Longrightarrow> tolerated F \<Longrightarrow> A \<noteq> {}"
  using intersect by fastforce

text \<open>
  If the correct members vote for at most one block each, all blocks that gather a quorum
  are the same.
\<close>

lemma certificate_unique:
  assumes "tolerated F"
    and single: "\<And>v b c. v \<notin> F \<Longrightarrow> votes v b \<Longrightarrow> votes v c \<Longrightarrow> b = c"
    and "is_quorum A" "\<And>v. v \<in> A \<Longrightarrow> votes v b"
    and "is_quorum B" "\<And>v. v \<in> B \<Longrightarrow> votes v c"
  shows "b = c"
proof -
  from intersect [OF \<open>is_quorum A\<close> \<open>is_quorum B\<close> \<open>tolerated F\<close>]
  obtain v where "v \<in> A" "v \<in> B" "v \<notin> F" by blast
  then show ?thesis using single assms(4,6) by blast
qed

end

text \<open>The power of a set of validators, summed as the code sums it (with wrap-around).\<close>

definition power_of :: "('v \<Rightarrow> u64) \<Rightarrow> 'v set \<Rightarrow> u64" where
  "power_of pw A = (\<Sum>v \<in> A. pw v)"

definition total_in_range :: "('v \<Rightarrow> u64) \<Rightarrow> 'v set \<Rightarrow> bool" where
  "total_in_range pw C \<longleftrightarrow> (\<Sum>v \<in> C. unat (pw v)) \<le> 6148914691236517205"

lemma unat_power_of:
  assumes "finite A" "(\<Sum>v \<in> A. unat (pw v)) < 18446744073709551616"
  shows "unat (power_of pw A) = (\<Sum>v \<in> A. unat (pw v))"
  using assms
proof (induction A)
  case empty
  show ?case by (simp add: power_of_def)
next
  case (insert x A)
  then have IH: "unat (power_of pw A) = (\<Sum>v \<in> A. unat (pw v))" by simp
  have "power_of pw (insert x A) = pw x + power_of pw A"
    using insert.hyps by (simp add: power_of_def)
  moreover have "unat (pw x) + unat (power_of pw A) < 2 ^ 64"
    using IH insert.hyps insert.prems by simp
  ultimately have "unat (power_of pw (insert x A)) = unat (pw x) + unat (power_of pw A)"
    by (simp add: unat_word_ariths)
  then show ?case using insert.hyps IH by simp
qed

lemma unat_power_of_subset:
  assumes "finite C" "A \<subseteq> C" "total_in_range pw C"
  shows "unat (power_of pw A) = (\<Sum>v \<in> A. unat (pw v))"
    and "(\<Sum>v \<in> A. unat (pw v)) \<le> (\<Sum>v \<in> C. unat (pw v))"
    and "power_in_range (power_of pw A)"
proof -
  show le: "(\<Sum>v \<in> A. unat (pw v)) \<le> (\<Sum>v \<in> C. unat (pw v))"
    using assms(1,2) by (rule sum_mono2) simp
  have "finite A" using assms(1,2) by (rule rev_finite_subset)
  then show eq: "unat (power_of pw A) = (\<Sum>v \<in> A. unat (pw v))"
    using le assms(3) by (intro unat_power_of) (auto simp: total_in_range_def)
  show "power_in_range (power_of pw A)"
    using eq le assms(3) by (simp add: power_in_range_def total_in_range_def)
qed

definition quorum_of :: "('v \<Rightarrow> u64) \<Rightarrow> 'v set \<Rightarrow> 'v set \<Rightarrow> bool" where
  "quorum_of pw C A \<longleftrightarrow> finite C \<and> total_in_range pw C \<and> A \<subseteq> C
     \<and> has_quorum (power_of pw A) (power_of pw C)"

text \<open>A set of faulty members is tolerated if it holds less than a third of the power.\<close>

definition tolerated_in :: "('v \<Rightarrow> u64) \<Rightarrow> 'v set \<Rightarrow> 'v set \<Rightarrow> bool" where
  "tolerated_in pw C F \<longleftrightarrow> 3 * (\<Sum>v \<in> F \<inter> C. unat (pw v)) < (\<Sum>v \<in> C. unat (pw v))"

lemma quorum_of_iff:
  assumes "finite C" "total_in_range pw C" "A \<subseteq> C"
  shows "quorum_of pw C A \<longleftrightarrow> 2 * (\<Sum>v \<in> C. unat (pw v)) < 3 * (\<Sum>v \<in> A. unat (pw v))"
proof -
  note A = unat_power_of_subset [OF assms(1,3,2)]
  note C = unat_power_of_subset [OF assms(1) subset_refl assms(2)]
  show ?thesis
    using has_quorum_iff [OF A(3) C(3)] A(1) C(1) assms by (simp add: quorum_of_def)
qed

lemma quorum_of_intersect:
  assumes A: "quorum_of pw C A" and B: "quorum_of pw C B" and F: "tolerated_in pw C F"
  shows "\<exists>v \<in> A \<inter> B. v \<notin> F"
proof (rule ccontr)
  assume no: "\<not> (\<exists>v \<in> A \<inter> B. v \<notin> F)"
  let ?w = "\<lambda>S. \<Sum>v \<in> S. unat (pw v)"
  from A B have C: "finite C" "total_in_range pw C" and sub: "A \<subseteq> C" "B \<subseteq> C"
    by (auto simp: quorum_of_def)
  then have fin: "finite A" "finite B" by (auto intro: finite_subset)
  from no sub have "A \<inter> B \<subseteq> F \<inter> C" by blast
  then have "?w (A \<inter> B) \<le> ?w (F \<inter> C)" using C by (intro sum_mono2) auto
  moreover have "?w (A \<union> B) \<le> ?w C" using C sub by (intro sum_mono2) auto
  moreover have "?w A + ?w B = ?w (A \<union> B) + ?w (A \<inter> B)"
    using fin by (simp add: sum.union_inter)
  moreover have "2 * ?w C < 3 * ?w A" "2 * ?w C < 3 * ?w B"
    using A B C sub quorum_of_iff by blast+
  ultimately show False using F by (simp add: tolerated_in_def)
qed

interpretation vp: quorum_system "quorum_of pw C" "tolerated_in pw C" for pw C
  by unfold_locales (rule quorum_of_intersect)

section \<open>Signing messages\<close>

definition DOMAIN_BLOCK_VOTE :: bytes where
  "DOMAIN_BLOCK_VOTE = [66, 76, 79, 67, 75, 95, 86, 79, 84, 69]"

definition DOMAIN_STATE_PROVISION :: bytes where
  "DOMAIN_STATE_PROVISION = [83, 84, 65, 84, 69, 95, 80, 82, 79, 86, 73, 83, 73, 79, 78]"

definition DOMAIN_EXEC_VOTE :: bytes where
  "DOMAIN_EXEC_VOTE = [69, 88, 69, 67, 95, 86, 79, 84, 69]"

definition block_vote_message :: "shard_group_id \<Rightarrow> u64 \<Rightarrow> u64 \<Rightarrow> hash \<Rightarrow> bytes" where
  "block_vote_message shard_group height round block_hash =
     DOMAIN_BLOCK_VOTE @ le_bytes 8 shard_group @ le_bytes 8 height @ le_bytes 8 round
       @ as_bytes block_hash"

definition state_provision_message ::
    "hash \<Rightarrow> shard_group_id \<Rightarrow> shard_group_id \<Rightarrow> block_height \<Rightarrow> u64 \<Rightarrow> hash list \<Rightarrow> bytes" where
  "state_provision_message tx_hash target_shard source_shard block_height block_timestamp
       entries_hashes =
     DOMAIN_STATE_PROVISION @ as_bytes tx_hash @ le_bytes 8 target_shard @ le_bytes 8 source_shard
       @ le_bytes 8 block_height @ le_bytes 8 block_timestamp
       @ concat (map as_bytes entries_hashes)"

definition exec_vote_message :: "hash \<Rightarrow> hash \<Rightarrow> shard_group_id \<Rightarrow> bool \<Rightarrow> bytes" where
  "exec_vote_message tx_hash state_root shard_group success =
     DOMAIN_EXEC_VOTE @ as_bytes tx_hash @ as_bytes state_root @ le_bytes 8 shard_group
       @ [if success then 1 else 0]"

lemma le_bytes_u64_inj: "le_bytes 8 a = le_bytes 8 b \<Longrightarrow> a = (b :: u64)"
  using le_bytes_inj [of 8 a b] by simp

lemma concat_as_bytes_inj: "concat (map as_bytes xs) = concat (map as_bytes ys) \<Longrightarrow> xs = ys"
proof (induction xs arbitrary: ys)
  case Nil
  then show ?case by (cases ys) (auto simp flip: length_0_conv)
next
  case (Cons x xs)
  then obtain y ys' where ys: "ys = y # ys'"
    by (cases ys) (auto simp flip: length_0_conv)
  with Cons.prems have "as_bytes x = as_bytes y" "concat (map as_bytes xs) = concat (map as_bytes ys')"
    by (auto simp: append_eq_append_conv)
  then show ?case using ys Cons.IH as_bytes_inj by blast
qed

lemma block_vote_message_inj:
  "block_vote_message s h r b = block_vote_message s' h' r' b' \<Longrightarrow>
   s = s' \<and> h = h' \<and> r = r' \<and> b = b'"
  by (auto simp: block_vote_message_def append_eq_append_conv
      dest: le_bytes_u64_inj as_bytes_inj)

lemma state_provision_message_inj:
  "state_provision_message t ts ss h tm es = state_provision_message t' ts' ss' h' tm' es' \<Longrightarrow>
   t = t' \<and> ts = ts' \<and> ss = ss' \<and> h = h' \<and> tm = tm' \<and> es = es'"
  by (auto simp: state_provision_message_def append_eq_append_conv
      dest: le_bytes_u64_inj as_bytes_inj concat_as_bytes_inj)

lemma exec_vote_message_inj:
  "exec_vote_message t r s ok = exec_vote_message t' r' s' ok' \<Longrightarrow>
   t = t' \<and> r = r' \<and> s = s' \<and> ok = ok'"
  by (auto simp: exec_vote_message_def append_eq_append_conv split: if_splits
      dest: le_bytes_u64_inj as_bytes_inj)

lemma signing_domains_disjoint:
  "block_vote_message s h r b \<noteq> state_provision_message t ts ss ph tm es"
  "block_vote_message s h r b \<noteq> exec_vote_message t root sg ok"
  "state_provision_message t ts ss ph tm es \<noteq> exec_vote_message t' root sg ok"
  by (simp_all add: block_vote_message_def state_provision_message_def exec_vote_message_def
      DOMAIN_BLOCK_VOTE_def DOMAIN_STATE_PROVISION_def DOMAIN_EXEC_VOTE_def)

section \<open>Properties\<close>

text \<open>
  C25: a signature over one of the three kinds of messages says exactly one thing: block-vote
  messages are equal only for the same shard, height, round and block, provision and execution
  messages only for the same content, and no message of one kind is a message of another.
\<close>

theorem signing_messages_separate:
  "(block_vote_message s h r b = block_vote_message s' h' r' b' \<longleftrightarrow> s = s' \<and> h = h' \<and> r = r' \<and> b = b')
   \<and> (state_provision_message t ts ss ph tm es = state_provision_message t' ts' ss' ph' tm' es'
        \<longleftrightarrow> t = t' \<and> ts = ts' \<and> ss = ss' \<and> ph = ph' \<and> tm = tm' \<and> es = es')
   \<and> (exec_vote_message u root g ok = exec_vote_message u' root' g' ok'
        \<longleftrightarrow> u = u' \<and> root = root' \<and> g = g' \<and> ok = ok')
   \<and> block_vote_message s h r b \<noteq> state_provision_message t ts ss ph tm es
   \<and> block_vote_message s h r b \<noteq> exec_vote_message u root g ok
   \<and> state_provision_message t ts ss ph tm es \<noteq> exec_vote_message u root g ok"
  by (auto simp: signing_domains_disjoint
      dest!: block_vote_message_inj state_provision_message_inj exec_vote_message_inj)

end
