(* ===== verification/Signer_Bitfield.thy ===== *)
theory Signer_Bitfield
  imports Identifiers
begin

text \<open>
  \<open>SignerBitfield\<close> of \<open>crates/types/src/signer_bitfield.rs\<close>: the compact set of committee
  indices carried by every aggregated certificate.  \<open>set\<close> and \<open>clear\<close> index the byte vector;
  an index past its end panics, which is \<open>None\<close> here.
\<close>

record signer_bitfield =
  bf_bits :: bytes
  bf_num_validators :: usize

definition bf_new :: "usize \<Rightarrow> signer_bitfield" where
  "bf_new n = \<lparr>bf_bits = replicate ((n + 7) div 8) 0, bf_num_validators = n\<rparr>"

definition bf_empty :: signer_bitfield where
  "bf_empty = \<lparr>bf_bits = [], bf_num_validators = 0\<rparr>"

definition bf_set :: "signer_bitfield \<Rightarrow> usize \<Rightarrow> signer_bitfield option" where
  "bf_set bf index =
     (if index < bf_num_validators bf then
        (let byte_idx = index div 8; bit_idx = index mod 8 in
         if byte_idx < length (bf_bits bf)
         then Some (bf\<lparr>bf_bits := (bf_bits bf)[byte_idx := bf_bits bf ! byte_idx OR push_bit bit_idx 1]\<rparr>)
         else None)
      else Some bf)"

definition bf_clear :: "signer_bitfield \<Rightarrow> usize \<Rightarrow> signer_bitfield option" where
  "bf_clear bf index =
     (if index < bf_num_validators bf then
        (let byte_idx = index div 8; bit_idx = index mod 8 in
         if byte_idx < length (bf_bits bf)
         then Some (bf\<lparr>bf_bits :=
                (bf_bits bf)[byte_idx := bf_bits bf ! byte_idx AND NOT (push_bit bit_idx 1)]\<rparr>)
         else None)
      else Some bf)"

definition bf_is_set :: "signer_bitfield \<Rightarrow> usize \<Rightarrow> bool" where
  "bf_is_set bf index =
     (if index \<ge> bf_num_validators bf then False
      else let byte_idx = index div 8; bit_idx = index mod 8 in
        if byte_idx \<ge> length (bf_bits bf) then False
        else (drop_bit bit_idx (bf_bits bf ! byte_idx)) AND 1 = 1)"

definition u8_count_ones :: "u8 \<Rightarrow> nat" where
  "u8_count_ones b = length (filter (bit b) [0..<8])"

definition bf_count_ones :: "signer_bitfield \<Rightarrow> usize" where
  "bf_count_ones bf = sum_list (map u8_count_ones (bf_bits bf))"

definition bf_set_indices :: "signer_bitfield \<Rightarrow> usize list" where
  "bf_set_indices bf = filter (bf_is_set bf) [0..<bf_num_validators bf]"

definition bf_is_empty :: "signer_bitfield \<Rightarrow> bool" where
  "bf_is_empty bf \<longleftrightarrow> list_all (\<lambda>b. b = 0) (bf_bits bf)"

text \<open>The invariant of a bitfield built by \<open>new\<close>: the right number of bytes and no stray bit.\<close>

definition bf_wf :: "signer_bitfield \<Rightarrow> bool" where
  "bf_wf bf \<longleftrightarrow> length (bf_bits bf) = (bf_num_validators bf + 7) div 8 \<and>
     (\<forall>i < 8 * length (bf_bits bf). bit (bf_bits bf ! (i div 8)) (i mod 8) \<longrightarrow> i < bf_num_validators bf)"

definition bf_members :: "signer_bitfield \<Rightarrow> nat set" where
  "bf_members bf = {i. bf_is_set bf i}"

section \<open>Behaviour of the operations\<close>

lemma and_one_bit: "(drop_bit k (w :: u8)) AND 1 = 1 \<longleftrightarrow> bit w k"
  by (simp add: and_one_eq bit_iff_odd_drop_bit odd_iff_mod_2_eq_one)

lemma bf_is_set_iff:
  "bf_is_set bf i \<longleftrightarrow> i < bf_num_validators bf \<and> i div 8 < length (bf_bits bf)
     \<and> bit (bf_bits bf ! (i div 8)) (i mod 8)"
  by (auto simp: bf_is_set_def Let_def and_one_bit)

lemma bf_wf_index: "bf_wf bf \<Longrightarrow> i < bf_num_validators bf \<Longrightarrow> i div 8 < length (bf_bits bf)"
  by (auto simp: bf_wf_def)

lemma bit_byte_set:
  "k < 8 \<Longrightarrow> bit ((w :: u8) OR push_bit k 1) m \<longleftrightarrow> bit w m \<or> m = k"
  by (auto simp: bit_or_iff bit_exp_iff)

lemma bit_byte_clear:
  "k < 8 \<Longrightarrow> bit ((w :: u8) AND NOT (push_bit k 1)) m \<longleftrightarrow> bit w m \<and> m \<noteq> k"
proof -
  assume "k < 8"
  have "bit w m \<Longrightarrow> m < 8" using bit_imp_le_length [of w m] by simp
  then show ?thesis
    using \<open>k < 8\<close> by (auto simp: bit_and_iff bit_not_iff bit_exp_iff)
qed

lemma bf_set_some: "bf_wf bf \<Longrightarrow> \<exists>bf'. bf_set bf i = Some bf'"
  using bf_wf_index unfolding bf_set_def Let_def by auto

lemma bf_clear_some: "bf_wf bf \<Longrightarrow> \<exists>bf'. bf_clear bf i = Some bf'"
  using bf_wf_index unfolding bf_clear_def Let_def by auto

lemma bf_set_num [simp]: "bf_set bf i = Some bf' \<Longrightarrow> bf_num_validators bf' = bf_num_validators bf"
  unfolding bf_set_def Let_def by (auto split: if_splits)

lemma bf_clear_num [simp]: "bf_clear bf i = Some bf' \<Longrightarrow> bf_num_validators bf' = bf_num_validators bf"
  unfolding bf_clear_def Let_def by (auto split: if_splits)

lemma same_bit_iff: "(i::nat) = j \<longleftrightarrow> i div 8 = j div 8 \<and> i mod 8 = j mod 8"
proof
  assume "i div 8 = j div 8 \<and> i mod 8 = j mod 8"
  then have "i div 8 * 8 + i mod 8 = j div 8 * 8 + j mod 8" by (simp only:)
  then show "i = j" by (simp only: div_mult_mod_eq)
qed (simp only:)

lemma bf_set_bits:
  assumes "bf_set bf i = Some bf'" "j div 8 < length (bf_bits bf)"
  shows "bit (bf_bits bf' ! (j div 8)) (j mod 8) \<longleftrightarrow>
       bit (bf_bits bf ! (j div 8)) (j mod 8) \<or> (j = i \<and> i < bf_num_validators bf)"
proof (cases "i < bf_num_validators bf \<and> j div 8 = i div 8")
  case True
  then have eq: "j div 8 = i div 8" and i: "i < bf_num_validators bf" by blast+
  have "bf_bits bf' = (bf_bits bf)[i div 8 := bf_bits bf ! (i div 8) OR push_bit (i mod 8) 1]"
    using assms(1) i unfolding bf_set_def Let_def by (auto split: if_splits)
  then have "bf_bits bf' ! (j div 8) = bf_bits bf ! (j div 8) OR push_bit (i mod 8) 1"
    unfolding eq using assms(2) [unfolded eq] by (simp only: nth_list_update_eq)
  moreover have "j = i \<longleftrightarrow> j mod 8 = i mod 8"
    using same_bit_iff [of j i] eq by blast
  ultimately show ?thesis
    using i bit_byte_set [OF mod_less_divisor, of "bf_bits bf ! (j div 8)" i "j mod 8"]
    by (simp only: zero_less_numeral simp_thms)
next
  case False
  then have "bf_bits bf' ! (j div 8) = bf_bits bf ! (j div 8)"
    using assms(1) unfolding bf_set_def Let_def by (auto split: if_splits)
  with False show ?thesis by auto
qed

lemma bf_clear_bits:
  assumes "bf_clear bf i = Some bf'" "j div 8 < length (bf_bits bf)"
  shows "bit (bf_bits bf' ! (j div 8)) (j mod 8) \<longleftrightarrow>
       bit (bf_bits bf ! (j div 8)) (j mod 8) \<and> \<not> (j = i \<and> i < bf_num_validators bf)"
proof (cases "i < bf_num_validators bf \<and> j div 8 = i div 8")
  case True
  then have eq: "j div 8 = i div 8" and i: "i < bf_num_validators bf" by blast+
  have "bf_bits bf' = (bf_bits bf)[i div 8 := bf_bits bf ! (i div 8) AND NOT (push_bit (i mod 8) 1)]"
    using assms(1) i unfolding bf_clear_def Let_def by (auto split: if_splits)
  then have "bf_bits bf' ! (j div 8) = bf_bits bf ! (j div 8) AND NOT (push_bit (i mod 8) 1)"
    unfolding eq using assms(2) [unfolded eq] by (simp only: nth_list_update_eq)
  moreover have "j = i \<longleftrightarrow> j mod 8 = i mod 8"
    using same_bit_iff [of j i] eq by blast
  ultimately show ?thesis
    using i bit_byte_clear [OF mod_less_divisor, of "bf_bits bf ! (j div 8)" i "j mod 8"]
    by (simp only: zero_less_numeral simp_thms)
next
  case False
  then have "bf_bits bf' ! (j div 8) = bf_bits bf ! (j div 8)"
    using assms(1) unfolding bf_clear_def Let_def by (auto split: if_splits)
  with False show ?thesis by auto
qed

lemma bf_set_length: "bf_set bf i = Some bf' \<Longrightarrow> length (bf_bits bf') = length (bf_bits bf)"
  unfolding bf_set_def Let_def by (auto split: if_splits)

lemma bf_clear_length: "bf_clear bf i = Some bf' \<Longrightarrow> length (bf_bits bf') = length (bf_bits bf)"
  unfolding bf_clear_def Let_def by (auto split: if_splits)

lemma bf_wf_set: "bf_wf bf \<Longrightarrow> bf_set bf i = Some bf' \<Longrightarrow> bf_wf bf'"
  using bf_set_bits [of bf i bf'] bf_set_length [of bf i bf']
  by (auto simp: bf_wf_def)

lemma bf_wf_clear: "bf_wf bf \<Longrightarrow> bf_clear bf i = Some bf' \<Longrightarrow> bf_wf bf'"
  using bf_clear_bits [of bf i bf'] bf_clear_length [of bf i bf']
  by (auto simp: bf_wf_def)

lemma bf_wf_new: "bf_wf (bf_new n)"
  by (auto simp: bf_wf_def bf_new_def)

lemma bf_members_new: "bf_members (bf_new n) = {}"
  by (auto simp: bf_members_def bf_is_set_iff bf_new_def)

lemma bf_members_set:
  assumes "bf_wf bf" "bf_set bf i = Some bf'"
  shows "bf_members bf' = bf_members bf \<union> ({i} \<inter> {..<bf_num_validators bf})"
proof -
  have "bf_is_set bf' j \<longleftrightarrow> bf_is_set bf j \<or> (j = i \<and> i < bf_num_validators bf)" for j
    using bf_set_bits [OF assms(2), of j] bf_set_length [OF assms(2)] bf_wf_index [OF assms(1)] assms(2)
    by (auto simp: bf_is_set_iff)
  then show ?thesis by (auto simp: bf_members_def)
qed

lemma bf_members_clear:
  assumes "bf_wf bf" "bf_clear bf i = Some bf'"
  shows "bf_members bf' = bf_members bf - {i}"
proof -
  have "bf_is_set bf' j \<longleftrightarrow> bf_is_set bf j \<and> j \<noteq> i" for j
    using bf_clear_bits [OF assms(2), of j] bf_clear_length [OF assms(2)] assms(2)
    by (auto simp: bf_is_set_iff)
  then show ?thesis by (auto simp: bf_members_def)
qed

section \<open>Counting\<close>

lemma filter_shift_byte:
  "length (filter (\<lambda>i. bit (bs ! (i div 8)) (i mod 8)) [8 * m..<8 * m + 8]) = u8_count_ones (bs ! m)"
proof -
  have "[8 * m..<8 * m + 8] = map (\<lambda>i. i + 8 * m) [0..<8]"
    using map_add_upt [of "8 * m" 8] by (simp only: add.commute)
  then have "filter (\<lambda>i. bit (bs ! (i div 8)) (i mod 8)) [8 * m..<8 * m + 8]
           = map (\<lambda>i. i + 8 * m) (filter (bit (bs ! m)) [0..<8])"
    by (simp only: filter_map comp_def) (auto intro!: arg_cong [where f = "map (\<lambda>i. i + 8 * m)"] filter_cong simp del: upt_conv_Cons_Cons)
  then show ?thesis by (simp only: u8_count_ones_def length_map)
qed

lemma count_bits_prefix:
  "m \<le> length bs \<Longrightarrow>
   length (filter (\<lambda>i. bit (bs ! (i div 8)) (i mod 8)) [0..<8 * m])
     = sum_list (map u8_count_ones (take m bs))"
proof (induction m)
  case (Suc m)
  have "[0..<8 * Suc m] = [0..<8 * m] @ [8 * m..<8 * m + 8]"
    by (metis add.commute mult_Suc_right upt_add_eq_append zero_le)
  then show ?case
    using Suc filter_shift_byte [of bs m] by (simp add: take_Suc_conv_app_nth)
qed simp

lemma filter_upto_cut:
  "n \<le> m \<Longrightarrow> (\<And>i. i < m \<Longrightarrow> P i \<Longrightarrow> i < n) \<Longrightarrow> filter P [0..<m] = filter P [0..<n]"
proof -
  assume "n \<le> m" and P: "\<And>i. i < m \<Longrightarrow> P i \<Longrightarrow> i < n"
  then have "[0..<m] = [0..<n] @ [n..<m]"
    by (metis le_add_diff_inverse upt_add_eq_append zero_le)
  moreover have "filter P [n..<m] = []"
    using P by (fastforce simp: filter_empty_conv)
  ultimately show ?thesis by simp
qed

lemma bf_count_ones_indices:
  assumes "bf_wf bf"
  shows "bf_count_ones bf = length (bf_set_indices bf)"
proof -
  let ?P = "\<lambda>i. bit (bf_bits bf ! (i div 8)) (i mod 8)"
  let ?L = "8 * length (bf_bits bf)"
  have "bf_count_ones bf = length (filter ?P [0..<?L])"
    using count_bits_prefix [of "length (bf_bits bf)" "bf_bits bf"] by (simp add: bf_count_ones_def)
  also have "filter ?P [0..<?L] = filter ?P [0..<bf_num_validators bf]"
    using assms by (intro filter_upto_cut) (auto simp: bf_wf_def)
  also have "\<dots> = bf_set_indices bf"
    unfolding bf_set_indices_def using bf_wf_index [OF assms]
    by (intro filter_cong) (auto simp: bf_is_set_iff)
  finally show ?thesis .
qed

lemma set_bf_set_indices: "set (bf_set_indices bf) = bf_members bf"
  by (auto simp: bf_set_indices_def bf_members_def bf_is_set_iff)

lemma bf_count_ones_card: "bf_wf bf \<Longrightarrow> bf_count_ones bf = card (bf_members bf)"
  using distinct_card [of "bf_set_indices bf"] distinct_filter [OF distinct_upt]
  by (simp add: bf_count_ones_indices set_bf_set_indices) (simp add: bf_set_indices_def)

lemma bf_members_bound: "bf_members bf \<subseteq> {..<bf_num_validators bf}"
  by (auto simp: bf_members_def bf_is_set_iff)

section \<open>The signer-set contract\<close>

text \<open>
  What the certificate builders use of a bitfield: start from an empty set of capacity
  \<open>n\<close>, add indices, read the members back.
\<close>

locale signer_set =
  fixes fresh :: "nat \<Rightarrow> 's"
    and add :: "'s \<Rightarrow> nat \<Rightarrow> 's option"
    and members :: "'s \<Rightarrow> nat set"
    and capacity :: "'s \<Rightarrow> nat"
    and invar :: "'s \<Rightarrow> bool"
  assumes invar_fresh: "invar (fresh n)"
    and members_fresh: "members (fresh n) = {}"
    and capacity_fresh: "capacity (fresh n) = n"
    and add_ok: "invar s \<Longrightarrow> \<exists>s'. add s i = Some s'"
    and invar_add: "invar s \<Longrightarrow> add s i = Some s' \<Longrightarrow> invar s'"
    and capacity_add: "invar s \<Longrightarrow> add s i = Some s' \<Longrightarrow> capacity s' = capacity s"
    and members_add: "invar s \<Longrightarrow> add s i = Some s' \<Longrightarrow>
      members s' = members s \<union> ({i} \<inter> {..<capacity s})"
begin

primrec add_all :: "nat list \<Rightarrow> 's \<Rightarrow> 's option" where
  "add_all [] s = Some s"
| "add_all (i # is) s = (case add s i of None \<Rightarrow> None | Some s' \<Rightarrow> add_all is s')"

lemma add_all_spec:
  "invar s \<Longrightarrow> \<exists>s'. add_all is s = Some s' \<and> invar s' \<and> capacity s' = capacity s
     \<and> members s' = members s \<union> (set is \<inter> {..<capacity s})"
proof (induction "is" arbitrary: s)
  case Nil
  then show ?case by simp
next
  case (Cons i "is")
  obtain s1 where s1: "add s i = Some s1" using add_ok [OF Cons.prems] by blast
  note facts = invar_add [OF Cons.prems s1] capacity_add [OF Cons.prems s1] members_add [OF Cons.prems s1]
  show ?case using Cons.IH [OF facts(1)] facts s1 by auto
qed

lemma add_all_fresh:
  "\<exists>s'. add_all is (fresh n) = Some s' \<and> invar s' \<and> members s' = set is \<inter> {..<n}"
  using add_all_spec [OF invar_fresh, of "is" n] by (auto simp: members_fresh capacity_fresh)

end

interpretation bf: signer_set bf_new bf_set bf_members bf_num_validators bf_wf
  by unfold_locales
    (simp_all add: bf_wf_new bf_members_new bf_set_some bf_wf_set bf_members_set, simp add: bf_new_def)

section \<open>Properties\<close>

text \<open>
  C24: setting and clearing a signer bit refine insertion into and deletion from a set of
  indices; indices past the capacity are ignored, the set of signers read back is sorted and
  its size is the bit count, and neither operation goes out of the bounds of the byte vector.
\<close>

theorem bitfield_refines_set:
  assumes "bf_wf bf"
  shows "(\<exists>b. bf_set bf i = Some b \<and> bf_wf b \<and> set (bf_set_indices b) = set (bf_set_indices bf) \<union> ({i} \<inter> {..<bf_num_validators bf}))
    \<and> (\<exists>b. bf_clear bf i = Some b \<and> bf_wf b \<and> set (bf_set_indices b) = set (bf_set_indices bf) - {i})
    \<and> sorted (bf_set_indices bf) \<and> distinct (bf_set_indices bf) \<and> bf_count_ones bf = length (bf_set_indices bf)"
proof -
  obtain b c where b: "bf_set bf i = Some b" and c: "bf_clear bf i = Some c"
    using bf_set_some [OF assms] bf_clear_some [OF assms] by blast
  have "bf_wf b" "bf_wf c" using bf_wf_set bf_wf_clear assms b c by blast+
  moreover have "sorted (bf_set_indices bf)" "distinct (bf_set_indices bf)"
    by (simp_all add: bf_set_indices_def sorted_wrt_filter)
  ultimately show ?thesis
    using b c bf_members_set [OF assms b] bf_members_clear [OF assms c] bf_count_ones_indices [OF assms]
    by (simp add: set_bf_set_indices)
qed

theorem bitfield_refines_set_witness:
  "\<exists>b. bf_set (bf_new 10) 9 = Some b \<and> set (bf_set_indices b) = {9}"
proof -
  have "bf_num_validators (bf_new 10) = 10" by (simp add: bf_new_def)
  then show ?thesis
    using bitfield_refines_set [OF bf_wf_new [of 10], of 9] by (auto simp: set_bf_set_indices bf_members_new)
qed

end
