(* ===== verification/State_Types.thy ===== *)
theory State_Types
  imports Signer_Bitfield
begin

text \<open>
  State entries, execution votes and certificates (\<open>crates/types/src/state.rs\<close>) and the
  commitment and cycle proofs built from them (\<open>crates/types/src/proofs.rs\<close>).
\<close>

section \<open>State entries and certificates\<close>

record substate_write =
  sw_node_id :: node_id
  sw_partition :: u8
  sw_sort_key :: bytes
  sw_value :: bytes

record state_entry =
  se_storage_key :: bytes
  se_value :: "bytes option"

definition RADIX_PREFIX_LEN :: usize where
  "RADIX_PREFIX_LEN = 6"

definition HASH_PREFIX_LEN :: usize where
  "HASH_PREFIX_LEN = 20"

definition entry_node_id :: "state_entry \<Rightarrow> node_id option" where
  "entry_node_id e =
     (let start = RADIX_PREFIX_LEN + HASH_PREFIX_LEN; stop = start + 30 in
      if length (se_storage_key e) \<ge> stop
      then Some (node_from_bytes (take 30 (drop start (se_storage_key e))))
      else None)"

definition entry_hash :: "(bytes \<Rightarrow> hash) \<Rightarrow> state_entry \<Rightarrow> hash" where
  "entry_hash blake3 e =
     blake3 (se_storage_key e @
       (case se_value e of
          Some value_bytes \<Rightarrow> as_bytes (blake3 value_bytes)
        | None \<Rightarrow> replicate 32 0))"

record state_vote_block =
  sv_transaction_hash :: hash
  sv_shard_group_id :: shard_group_id
  sv_state_root :: hash
  sv_success :: bool
  sv_state_writes :: "substate_write list"
  sv_validator :: validator_id
  sv_signature :: signature

definition vote_signing_message :: "state_vote_block \<Rightarrow> bytes" where
  "vote_signing_message v =
     exec_vote_message (sv_transaction_hash v) (sv_state_root v) (sv_shard_group_id v) (sv_success v)"

record state_certificate =
  sc_transaction_hash :: hash
  sc_shard_group_id :: shard_group_id
  sc_read_nodes :: "node_id list"
  sc_state_writes :: "substate_write list"
  sc_outputs_merkle_root :: hash
  sc_success :: bool
  sc_aggregated_signature :: signature
  sc_signers :: signer_bitfield
  sc_voting_power :: u64

definition cert_signing_message :: "state_certificate \<Rightarrow> bytes" where
  "cert_signing_message c =
     exec_vote_message (sc_transaction_hash c) (sc_outputs_merkle_root c) (sc_shard_group_id c)
       (sc_success c)"

section \<open>Commitment and cycle proofs\<close>

record commitment_proof =
  cp_tx_hash :: hash
  cp_source_shard :: shard_group_id
  cp_signers :: signer_bitfield
  cp_aggregated_signature :: signature
  cp_block_height :: block_height
  cp_block_timestamp :: u64
  cp_entries :: "state_entry list"

definition cp_nodes :: "commitment_proof \<Rightarrow> node_id hset" where
  "cp_nodes p = hs_collect (List.map_filter entry_node_id (cp_entries p))"

definition cp_signer_count :: "commitment_proof \<Rightarrow> usize" where
  "cp_signer_count p = bf_count_ones (cp_signers p)"

definition cp_signer_indices :: "commitment_proof \<Rightarrow> usize list" where
  "cp_signer_indices p = bf_set_indices (cp_signers p)"

definition DOMAIN_COMMITMENT_PROOF :: bytes where
  "DOMAIN_COMMITMENT_PROOF = [67, 79, 77, 77, 73, 84, 77, 69, 78, 84, 95, 80, 82, 79, 79, 70]"

definition commitment_proof_message ::
    "hash \<Rightarrow> shard_group_id \<Rightarrow> block_height \<Rightarrow> hash list \<Rightarrow> bytes" where
  "commitment_proof_message tx_hash source_shard block_height entry_hashes =
     DOMAIN_COMMITMENT_PROOF @ as_bytes tx_hash @ le_bytes 8 source_shard @ le_bytes 8 block_height
       @ concat (map as_bytes entry_hashes)"

definition cp_signing_message :: "(bytes \<Rightarrow> hash) \<Rightarrow> commitment_proof \<Rightarrow> bytes" where
  "cp_signing_message blake3 p =
     commitment_proof_message (cp_tx_hash p) (cp_source_shard p) (cp_block_height p)
       (map (entry_hash blake3) (cp_entries p))"

record cycle_proof =
  cy_winner_tx_hash :: hash
  cy_winner_commitment :: commitment_proof

definition winner_nodes :: "cycle_proof \<Rightarrow> node_id hset" where
  "winner_nodes p = cp_nodes (cy_winner_commitment p)"

definition winner_source_shard :: "cycle_proof \<Rightarrow> shard_group_id" where
  "winner_source_shard p = cp_source_shard (cy_winner_commitment p)"

section \<open>Messages\<close>

text \<open>
  A state certificate is verified against the message its votes signed, exactly when the
  certificate carries the voted transaction, root, shard and outcome.
\<close>

lemma cert_message_iff_vote_message:
  "cert_signing_message c = vote_signing_message v \<longleftrightarrow>
     sc_transaction_hash c = sv_transaction_hash v \<and> sc_outputs_merkle_root c = sv_state_root v
     \<and> sc_shard_group_id c = sv_shard_group_id v \<and> sc_success c = sv_success v"
  by (auto simp only: cert_signing_message_def vote_signing_message_def
      dest: exec_vote_message_inj)

lemma commitment_message_differs:
  "commitment_proof_message t s h es \<noteq> state_provision_message t' g s' h' ts es'"
  by (simp add: commitment_proof_message_def state_provision_message_def
      DOMAIN_COMMITMENT_PROOF_def DOMAIN_STATE_PROVISION_def)

end
