(* ===== verification/Transactions.thy ===== *)
theory Transactions
  imports State_Types
begin

text \<open>
  Transactions, their retries, deferrals, aborts and certificates, and the life cycle of a
  transaction's status (\<open>crates/types/src/transaction.rs\<close>).

  A \<open>UserTransaction\<close> and its \<open>manifest_encode\<close> come from the Radix engine: the payload is
  opaque here and its encoding an argument.  The validation cache of a transaction is left
  out; no operation below reads it.
\<close>

type_synonym user_transaction = bytes

section \<open>Retries\<close>

record retry_details =
  rd_original_tx_hash :: hash
  rd_retry_count :: u32
  rd_deferred_by :: hash
  rd_deferred_at :: block_height

definition first_retry :: "hash \<Rightarrow> hash \<Rightarrow> block_height \<Rightarrow> retry_details" where
  "first_retry original_tx_hash deferred_by deferred_at =
     \<lparr>rd_original_tx_hash = original_tx_hash, rd_retry_count = 1, rd_deferred_by = deferred_by,
      rd_deferred_at = deferred_at\<rparr>"

definition next_retry :: "retry_details \<Rightarrow> hash \<Rightarrow> block_height \<Rightarrow> retry_details" where
  "next_retry d deferred_by deferred_at =
     \<lparr>rd_original_tx_hash = rd_original_tx_hash d, rd_retry_count = rd_retry_count d + 1,
      rd_deferred_by = deferred_by, rd_deferred_at = deferred_at\<rparr>"

definition RETRY_PREFIX :: bytes where
  "RETRY_PREFIX = [82, 69, 84, 82, 89, 58]"

definition to_hash_bytes :: "retry_details \<Rightarrow> bytes" where
  "to_hash_bytes d = RETRY_PREFIX @ as_bytes (rd_original_tx_hash d) @ le_bytes 4 (rd_retry_count d)
     @ as_bytes (rd_deferred_by d) @ le_bytes 8 (rd_deferred_at d)"

section \<open>Routable transactions\<close>

record routable_transaction =
  tx_transaction :: user_transaction
  declared_reads :: "node_id list"
  declared_writes :: "node_id list"
  retry_details :: "retry_details option"
  tx_hash :: hash
  serialized_bytes :: bytes

definition tx_new_internal :: "(bytes \<Rightarrow> hash) \<Rightarrow> (user_transaction \<Rightarrow> bytes) \<Rightarrow> user_transaction
    \<Rightarrow> node_id list \<Rightarrow> node_id list \<Rightarrow> retry_details option \<Rightarrow> routable_transaction" where
  "tx_new_internal blake3 manifest_encode transaction reads writes details =
     (let payload = manifest_encode transaction in
      \<lparr>tx_transaction = transaction, declared_reads = reads, declared_writes = writes,
       retry_details = details,
       tx_hash = blake3 (payload @ (case details of Some d \<Rightarrow> to_hash_bytes d | None \<Rightarrow> [])),
       serialized_bytes = payload\<rparr>)"

definition tx_new :: "(bytes \<Rightarrow> hash) \<Rightarrow> (user_transaction \<Rightarrow> bytes) \<Rightarrow> user_transaction
    \<Rightarrow> node_id list \<Rightarrow> node_id list \<Rightarrow> routable_transaction" where
  "tx_new blake3 manifest_encode transaction reads writes =
     tx_new_internal blake3 manifest_encode transaction reads writes None"

definition create_retry :: "(bytes \<Rightarrow> hash) \<Rightarrow> (user_transaction \<Rightarrow> bytes) \<Rightarrow> routable_transaction
    \<Rightarrow> hash \<Rightarrow> block_height \<Rightarrow> routable_transaction" where
  "create_retry blake3 manifest_encode tx deferred_by deferred_at =
     (let details = (case retry_details tx of
          Some existing \<Rightarrow> next_retry existing deferred_by deferred_at
        | None \<Rightarrow> first_retry (tx_hash tx) deferred_by deferred_at)
      in tx_new_internal blake3 manifest_encode (tx_transaction tx) (declared_reads tx)
           (declared_writes tx) (Some details))"

definition original_hash :: "routable_transaction \<Rightarrow> hash" where
  "original_hash tx = (case retry_details tx of Some d \<Rightarrow> rd_original_tx_hash d | None \<Rightarrow> tx_hash tx)"

definition retry_count :: "routable_transaction \<Rightarrow> u32" where
  "retry_count tx = (case retry_details tx of Some d \<Rightarrow> rd_retry_count d | None \<Rightarrow> 0)"

definition exceeds_max_retries :: "routable_transaction \<Rightarrow> u32 \<Rightarrow> bool" where
  "exceeds_max_retries tx max_retries \<longleftrightarrow> retry_count tx \<ge> max_retries"

definition is_retry :: "routable_transaction \<Rightarrow> bool" where
  "is_retry tx \<longleftrightarrow> retry_details tx \<noteq> None"

definition all_declared_nodes :: "routable_transaction \<Rightarrow> node_id list" where
  "all_declared_nodes tx = declared_reads tx @ declared_writes tx"

text \<open>
  \<open>shard_for_node\<close> (\<open>crates/types/src/topology.rs\<close>): the first eight hash bytes, little
  endian, modulo the number of shards.  It divides by \<open>num_shards\<close>, which the callers keep
  positive.
\<close>

definition shard_for_node :: "(bytes \<Rightarrow> hash) \<Rightarrow> node_id \<Rightarrow> u64 \<Rightarrow> shard_group_id" where
  "shard_for_node blake3 node num_shards =
     u64_from_le_bytes (take 8 (as_bytes (blake3 (node_bytes node)))) mod num_shards"

definition tx_is_cross_shard :: "(bytes \<Rightarrow> hash) \<Rightarrow> routable_transaction \<Rightarrow> u64 \<Rightarrow> bool" where
  "tx_is_cross_shard blake3 tx num_shards =
     (case declared_writes tx of [] \<Rightarrow> False
      | w # ws \<Rightarrow>
         let first_shard = shard_for_node blake3 w num_shards in
         list_ex (\<lambda>n. shard_for_node blake3 n num_shards \<noteq> first_shard) ws)"

section \<open>Decisions, deferrals, aborts\<close>

datatype transaction_decision = Accept | Reject

datatype defer_reason = LivelockCycle hash

record transaction_defer =
  td_tx_hash :: hash
  td_reason :: defer_reason
  td_block_height :: block_height
  td_proof :: cycle_proof

definition defer_new :: "hash \<Rightarrow> hash \<Rightarrow> block_height \<Rightarrow> cycle_proof \<Rightarrow> transaction_defer" where
  "defer_new h winner block_height proof =
     \<lparr>td_tx_hash = h, td_reason = LivelockCycle winner, td_block_height = block_height,
      td_proof = proof\<rparr>"

fun reason_winner :: "defer_reason \<Rightarrow> hash" where
  "reason_winner (LivelockCycle winner) = winner"

definition winner_hash :: "transaction_defer \<Rightarrow> hash" where
  "winner_hash d = reason_winner (td_reason d)"

datatype abort_reason =
    ExecutionTimeout block_height
  | TooManyRetries u32
  | ExecutionRejected string

record transaction_abort =
  ta_tx_hash :: hash
  ta_reason :: abort_reason
  ta_block_height :: block_height

section \<open>Status life cycle\<close>

datatype transaction_status =
    Pending
  | Committed block_height
  | Executed transaction_decision block_height
  | Completed transaction_decision
  | Deferred hash
  | Retried hash
  | Aborted abort_reason

fun is_final :: "transaction_status \<Rightarrow> bool" where
  "is_final (Completed _) = True"
| "is_final (Retried _) = True"
| "is_final (Aborted _) = True"
| "is_final _ = False"

fun is_ready_for_block :: "transaction_status \<Rightarrow> bool" where
  "is_ready_for_block Pending = True"
| "is_ready_for_block _ = False"

fun holds_state_lock :: "transaction_status \<Rightarrow> bool" where
  "holds_state_lock (Committed _) = True"
| "holds_state_lock (Executed _ _) = True"
| "holds_state_lock _ = False"

fun is_deferred :: "transaction_status \<Rightarrow> bool" where
  "is_deferred (Deferred _) = True"
| "is_deferred _ = False"

fun deferred_by :: "transaction_status \<Rightarrow> hash option" where
  "deferred_by (Deferred w) = Some w"
| "deferred_by _ = None"

fun retry_hash :: "transaction_status \<Rightarrow> hash option" where
  "retry_hash (Retried new_tx) = Some new_tx"
| "retry_hash _ = None"

fun is_deferrable :: "transaction_status \<Rightarrow> bool" where
  "is_deferrable (Committed _) = True"
| "is_deferrable _ = False"

fun ordinal :: "transaction_status \<Rightarrow> u8" where
  "ordinal Pending = 0"
| "ordinal (Committed _) = 1"
| "ordinal (Executed _ _) = 2"
| "ordinal (Completed _) = 3"
| "ordinal (Deferred _) = 4"
| "ordinal (Retried _) = 5"
| "ordinal (Aborted _) = 6"

fun can_transition_to :: "transaction_status \<Rightarrow> transaction_status \<Rightarrow> bool" where
  "can_transition_to Pending next =
     (case next of Committed _ \<Rightarrow> True | Retried _ \<Rightarrow> True | Deferred _ \<Rightarrow> True | _ \<Rightarrow> False)"
| "can_transition_to (Committed _) next =
     (case next of Executed _ _ \<Rightarrow> True | Deferred _ \<Rightarrow> True | Retried _ \<Rightarrow> True | Aborted _ \<Rightarrow> True
      | _ \<Rightarrow> False)"
| "can_transition_to (Executed _ _) next =
     (case next of Completed _ \<Rightarrow> True | Aborted _ \<Rightarrow> True | _ \<Rightarrow> False)"
| "can_transition_to (Deferred _) next =
     (case next of Retried _ \<Rightarrow> True | Aborted _ \<Rightarrow> True | _ \<Rightarrow> False)"
| "can_transition_to (Completed _) next = False"
| "can_transition_to (Retried _) next = False"
| "can_transition_to (Aborted _) next = False"

section \<open>Certificates and proposal input\<close>

record transaction_certificate =
  tc_transaction_hash :: hash
  tc_decision :: transaction_decision
  tc_shard_proofs :: "(shard_group_id, state_certificate) hmap"

definition tc_is_accepted :: "transaction_certificate \<Rightarrow> bool" where
  "tc_is_accepted c \<longleftrightarrow> tc_decision c = Accept"

definition tc_all_state_writes :: "transaction_certificate \<Rightarrow> substate_write list" where
  "tc_all_state_writes c = concat (map sc_state_writes (bm_values (tc_shard_proofs c)))"

definition tc_all_shards_succeeded :: "transaction_certificate \<Rightarrow> bool" where
  "tc_all_shards_succeeded c \<longleftrightarrow> list_all sc_success (bm_values (tc_shard_proofs c))"

record ready_transactions =
  rt_retries :: "routable_transaction list"
  rt_priority :: "routable_transaction list"
  rt_others :: "routable_transaction list"

definition ready_empty :: ready_transactions where
  "ready_empty = \<lparr>rt_retries = [], rt_priority = [], rt_others = []\<rparr>"

definition ready_iter :: "ready_transactions \<Rightarrow> routable_transaction list" where
  "ready_iter r = rt_retries r @ rt_priority r @ rt_others r"

section \<open>Facts about retries\<close>

lemma create_retry_count: "retry_count (create_retry b e tx w h) = retry_count tx + 1"
  by (auto simp: create_retry_def tx_new_internal_def Let_def retry_count_def next_retry_def
      first_retry_def split: option.splits)

lemma create_retry_original: "original_hash (create_retry b e tx w h) = original_hash tx"
  by (auto simp: create_retry_def tx_new_internal_def Let_def original_hash_def next_retry_def
      first_retry_def split: option.splits)

lemma create_retry_payload:
  "tx_transaction (create_retry b e tx w h) = tx_transaction tx"
  "declared_reads (create_retry b e tx w h) = declared_reads tx"
  "declared_writes (create_retry b e tx w h) = declared_writes tx"
  by (simp_all add: create_retry_def tx_new_internal_def Let_def)

lemma to_hash_bytes_inj: "to_hash_bytes d = to_hash_bytes d' \<Longrightarrow> d = d'"
  using le_bytes_inj [of 4 "rd_retry_count d" "rd_retry_count d'"]
  by (cases d; cases d') (auto simp: to_hash_bytes_def append_eq_append_conv
      dest: le_bytes_u64_inj as_bytes_inj)

section \<open>Facts about the life cycle\<close>

lemma is_final_stuck: "is_final s \<Longrightarrow> \<not> can_transition_to s t"
  by (cases s; cases t) auto

lemma status_rank:
  "can_transition_to s t \<Longrightarrow> ordinal s < ordinal t"
  by (cases s; cases t) auto

inductive status_run :: "transaction_status \<Rightarrow> transaction_status list \<Rightarrow> bool" where
  run_nil: "status_run s []"
| run_cons: "can_transition_to s t \<Longrightarrow> status_run t ts \<Longrightarrow> status_run s (t # ts)"

inductive_cases status_run_ConsE: "status_run s (t # ts)"

lemma status_run_length: "status_run s ts \<Longrightarrow> length ts + unat (ordinal s) \<le> 6"
proof (induction rule: status_run.induct)
  case (run_nil s)
  then show ?case by (cases s) auto
next
  case (run_cons s t ts)
  then have "unat (ordinal s) < unat (ordinal t)"
    using status_rank by (simp add: word_less_nat_alt)
  then show ?case using run_cons by simp
qed

section \<open>Properties\<close>

text \<open>
  C20: the life cycle of a transaction ends: a sequence of allowed status changes has at most
  six steps, a final status allows none, and from every status that is not final one is allowed.
\<close>

theorem status_life_cycle:
  assumes "status_run s ts"
  shows "length ts \<le> 6 \<and> (is_final (last (s # ts)) \<longleftrightarrow> (\<forall>t. \<not> can_transition_to (last (s # ts)) t))"
proof -
  have "is_final u \<longleftrightarrow> (\<forall>t. \<not> can_transition_to u t)" for u
  proof
    assume stuck: "\<forall>t. \<not> can_transition_to u t"
    then have "\<not> can_transition_to u (Retried 0)" "\<not> can_transition_to u (Aborted (TooManyRetries 0))" by blast+
    then show "is_final u" by (cases u) simp_all
  qed (simp add: is_final_stuck)
  then show ?thesis using status_run_length [OF assms] by simp
qed

theorem status_life_cycle_witness:
  "status_run Pending [Committed 3, Executed Accept 3, Completed Accept] \<and> is_final (Completed Accept)"
proof -
  have "status_run Pending [Committed 3, Executed Accept 3, Completed Accept]" by (auto intro!: status_run.intros)
  from this status_life_cycle [OF this] show ?thesis by simp
qed

definition retry_chain :: "(bytes \<Rightarrow> hash) \<Rightarrow> (user_transaction \<Rightarrow> bytes) \<Rightarrow> (hash \<times> block_height) list
    \<Rightarrow> routable_transaction \<Rightarrow> routable_transaction" where
  "retry_chain b e ds tx = fold (\<lambda>(w, h) t. create_retry b e t w h) ds tx"

text \<open>
  C21: a chain of retries keeps the payload, the declared nodes and the hash of the original
  transaction; the retry count goes up by one each time, so after as many retries as allowed
  the next one is refused.
\<close>

theorem retries_are_bounded:
  assumes "retry_count tx = 0" "length ds \<le> 4294967295"
  shows "tx_transaction (retry_chain b e ds tx) = tx_transaction tx \<and> all_declared_nodes (retry_chain b e ds tx) = all_declared_nodes tx
    \<and> original_hash (retry_chain b e ds tx) = original_hash tx
    \<and> (exceeds_max_retries (retry_chain b e ds tx) m \<longleftrightarrow> unat m \<le> length ds)"
proof -
  have frame: "tx_transaction (retry_chain b e ds t) = tx_transaction t \<and> all_declared_nodes (retry_chain b e ds t) = all_declared_nodes t
      \<and> original_hash (retry_chain b e ds t) = original_hash t \<and> retry_count (retry_chain b e ds t) = retry_count t + word_of_nat (length ds)" for t
    unfolding retry_chain_def
    by (induction ds arbitrary: t)
      (auto simp: create_retry_payload create_retry_original create_retry_count all_declared_nodes_def)
  then show ?thesis
    using assms frame [of tx]
    by (simp add: exceeds_max_retries_def word_le_nat_alt unat_of_nat)
qed

theorem retries_are_bounded_witness:
  "exceeds_max_retries (create_retry (\<lambda>_. 5) id (create_retry (\<lambda>_. 5) id (tx_new (\<lambda>_. 5) id [1] [] []) 8 1) 9 2) 2"
  using retries_are_bounded [of "tx_new (\<lambda>_. 5) id [1] [] []" "[(8, 1), (9, 2)]" "\<lambda>_. 5" id 2]
  by (simp add: retry_chain_def tx_new_def tx_new_internal_def retry_count_def Let_def)

end
