(* ===== verification/Merkle.thy ===== *)
theory Merkle
  imports Identifiers
begin

text \<open>
  \<open>compute_merkle_root\<close> of \<open>crates/types/src/hash.rs\<close> and its binding property: with no
  collision among the inputs actually hashed, the root determines the leaves, also between
  lists of different lengths, provided leaf inputs are never 64 bytes long.
\<close>

section \<open>The root computation\<close>

text \<open>One round of the loop: siblings are hashed in pairs, an odd last node moves up unchanged.\<close>

fun merkle_level :: "(bytes \<Rightarrow> hash) \<Rightarrow> hash list \<Rightarrow> hash list" where
  "merkle_level blake3 (x # y # rest) =
     Hash_from_parts blake3 [as_bytes x, as_bytes y] # merkle_level blake3 rest"
| "merkle_level blake3 [x] = [x]"
| "merkle_level blake3 [] = []"

lemma length_merkle_level: "length (merkle_level b xs) = (length xs + 1) div 2"
  by (induction b xs rule: merkle_level.induct) auto

function merkle_loop :: "(bytes \<Rightarrow> hash) \<Rightarrow> hash list \<Rightarrow> hash list" where
  "merkle_loop blake3 level =
     (if length level > 1 then merkle_loop blake3 (merkle_level blake3 level) else level)"
  by pat_completeness auto
termination
  by (relation "measure (\<lambda>(_, l). length l)") (auto simp: length_merkle_level)

declare merkle_loop.simps [simp del]

definition compute_merkle_root :: "(bytes \<Rightarrow> hash) \<Rightarrow> hash list \<Rightarrow> hash" where
  "compute_merkle_root blake3 hashes =
     (if hashes = [] then Hash_ZERO
      else if length hashes = 1 then hashes ! 0
      else merkle_loop blake3 hashes ! 0)"

text \<open>The byte strings the loop hashes.\<close>

fun level_inputs :: "hash list \<Rightarrow> bytes list" where
  "level_inputs (x # y # rest) = (as_bytes x @ as_bytes y) # level_inputs rest"
| "level_inputs [x] = []"
| "level_inputs [] = []"

function loop_inputs :: "(bytes \<Rightarrow> hash) \<Rightarrow> hash list \<Rightarrow> bytes list" where
  "loop_inputs blake3 level =
     (if length level > 1 then level_inputs level @ loop_inputs blake3 (merkle_level blake3 level)
      else [])"
  by pat_completeness auto
termination
  by (relation "measure (\<lambda>(_, l). length l)") (auto simp: length_merkle_level)

declare loop_inputs.simps [simp del]

section \<open>Hash trees\<close>

datatype htree = Leaf bytes | Node htree htree

primrec tree_hash :: "(bytes \<Rightarrow> hash) \<Rightarrow> htree \<Rightarrow> hash" where
  "tree_hash b (Leaf x) = b x"
| "tree_hash b (Node l r) = b (as_bytes (tree_hash b l) @ as_bytes (tree_hash b r))"

primrec tree_inputs :: "(bytes \<Rightarrow> hash) \<Rightarrow> htree \<Rightarrow> bytes set" where
  "tree_inputs b (Leaf x) = {x}"
| "tree_inputs b (Node l r) =
     insert (as_bytes (tree_hash b l) @ as_bytes (tree_hash b r)) (tree_inputs b l \<union> tree_inputs b r)"

primrec frontier :: "htree \<Rightarrow> bytes list" where
  "frontier (Leaf x) = [x]"
| "frontier (Node l r) = frontier l @ frontier r"

text \<open>A tree is determined by its hash when nothing it hashes collides.\<close>

lemma tree_hash_inj:
  assumes "tree_hash b t = tree_hash b u"
    and "inj_on b S" "tree_inputs b t \<subseteq> S" "tree_inputs b u \<subseteq> S"
    and "\<forall>x \<in> set (frontier t) \<union> set (frontier u). length x \<noteq> 64"
  shows "t = u"
  using assms
proof (induction t arbitrary: u)
  case (Leaf x)
  show ?case
  proof (cases u)
    case (Leaf y)
    with Leaf.prems show ?thesis by (auto dest: inj_onD)
  next
    case (Node l r)
    with Leaf.prems have "x = as_bytes (tree_hash b l) @ as_bytes (tree_hash b r)"
      by (auto dest: inj_onD)
    then show ?thesis using Leaf.prems(5) by simp
  qed
next
  case (Node l r)
  show ?case
  proof (cases u)
    case (Leaf y)
    with Node.prems have "y = as_bytes (tree_hash b l) @ as_bytes (tree_hash b r)"
      by (auto dest: inj_onD)
    then show ?thesis using Node.prems(5) Leaf by simp
  next
    case u: (Node l' r')
    with Node.prems have "as_bytes (tree_hash b l) @ as_bytes (tree_hash b r)
                        = as_bytes (tree_hash b l') @ as_bytes (tree_hash b r')"
      by (auto dest: inj_onD)
    then have "tree_hash b l = tree_hash b l'" "tree_hash b r = tree_hash b r'"
      by (auto dest: as_bytes_inj)
    moreover have "l = l'" if "tree_hash b l = tree_hash b l'"
      using Node.IH(1) [OF that] Node.prems(2-5) u by auto
    moreover have "r = r'" if "tree_hash b r = tree_hash b r'"
      using Node.IH(2) [OF that] Node.prems(2-5) u by auto
    ultimately show ?thesis using u by blast
  qed
qed

section \<open>The loop builds a tree\<close>

fun tree_level :: "htree list \<Rightarrow> htree list" where
  "tree_level (x # y # rest) = Node x y # tree_level rest"
| "tree_level [x] = [x]"
| "tree_level [] = []"

lemma tree_level_hash: "map (tree_hash b) (tree_level ts) = merkle_level b (map (tree_hash b) ts)"
  by (induction ts rule: tree_level.induct) (auto simp: Hash_from_parts_def)

lemma tree_level_frontier: "concat (map frontier (tree_level ts)) = concat (map frontier ts)"
  by (induction ts rule: tree_level.induct) auto

lemma tree_level_inputs:
  "(\<Union>t \<in> set (tree_level ts). tree_inputs b t)
     = (\<Union>t \<in> set ts. tree_inputs b t) \<union> set (level_inputs (map (tree_hash b) ts))"
  by (induction ts rule: tree_level.induct) auto

lemma length_tree_level: "length (tree_level ts) = (length ts + 1) div 2"
  by (induction ts rule: tree_level.induct) auto

lemma merkle_loop_tree:
  assumes "ts \<noteq> []"
  shows "\<exists>t. merkle_loop b (map (tree_hash b) ts) = [tree_hash b t]
     \<and> frontier t = concat (map frontier ts)
     \<and> tree_inputs b t = (\<Union>t \<in> set ts. tree_inputs b t) \<union> set (loop_inputs b (map (tree_hash b) ts))"
  using assms
proof (induction "length ts" arbitrary: ts rule: less_induct)
  case less
  show ?case
  proof (cases "length ts > 1")
    case False
    with less.prems obtain t where "ts = [t]" by (cases ts) auto
    then show ?thesis by (intro exI [of _ t]) (simp add: merkle_loop.simps loop_inputs.simps)
  next
    case True
    let ?us = "tree_level ts"
    have "length ?us < length ts" "?us \<noteq> []"
      using True length_tree_level [of ts] by (auto simp flip: length_greater_0_conv)
    from less.hyps [OF this] obtain t where t:
      "merkle_loop b (map (tree_hash b) ?us) = [tree_hash b t]"
      "frontier t = concat (map frontier ?us)"
      "tree_inputs b t = (\<Union>t \<in> set ?us. tree_inputs b t) \<union> set (loop_inputs b (map (tree_hash b) ?us))"
      by blast
    have "merkle_loop b (map (tree_hash b) ts) = merkle_loop b (map (tree_hash b) ?us)"
      using True by (subst merkle_loop.simps) (simp add: tree_level_hash)
    moreover have "set (loop_inputs b (map (tree_hash b) ts))
        = set (level_inputs (map (tree_hash b) ts)) \<union> set (loop_inputs b (map (tree_hash b) ?us))"
      using True by (subst loop_inputs.simps) (simp add: tree_level_hash)
    ultimately show ?thesis
      using t by (intro exI [of _ t]) (auto simp: tree_level_frontier tree_level_inputs)
  qed
qed

lemma compute_merkle_root_tree:
  assumes "leaves \<noteq> []"
  shows "\<exists>t. compute_merkle_root b (map b leaves) = tree_hash b t \<and> frontier t = leaves
     \<and> tree_inputs b t = set leaves \<union> set (loop_inputs b (map b leaves))"
proof -
  obtain t where "merkle_loop b (map (tree_hash b) (map Leaf leaves)) = [tree_hash b t]"
    "frontier t = concat (map frontier (map Leaf leaves))"
    "tree_inputs b t = (\<Union>t \<in> set (map Leaf leaves). tree_inputs b t)
        \<union> set (loop_inputs b (map (tree_hash b) (map Leaf leaves)))"
    using merkle_loop_tree [of "map Leaf leaves" b] assms by auto
  moreover have "map (tree_hash b) (map Leaf leaves) = map b leaves" by simp
  moreover have "concat (map frontier (map Leaf leaves)) = leaves"
    by (simp add: comp_def)
  ultimately have t: "merkle_loop b (map b leaves) = [tree_hash b t]" "frontier t = leaves"
    "tree_inputs b t = set leaves \<union> set (loop_inputs b (map b leaves))"
    by (simp_all only:) auto
  have "compute_merkle_root b (map b leaves) = merkle_loop b (map b leaves) ! 0"
    using assms by (auto simp: compute_merkle_root_def merkle_loop.simps)
  with t show ?thesis by (intro exI [of _ t]) simp
qed

lemma merkle_root_binding:
  assumes "leaves \<noteq> []" "leaves' \<noteq> []"
    and "compute_merkle_root b (map b leaves) = compute_merkle_root b (map b leaves')"
    and "inj_on b (set leaves \<union> set leaves' \<union> set (loop_inputs b (map b leaves))
                   \<union> set (loop_inputs b (map b leaves')))" (is "inj_on b ?S")
    and "\<forall>x \<in> set leaves \<union> set leaves'. length x \<noteq> 64"
  shows "leaves = leaves'"
proof -
  obtain t where t: "compute_merkle_root b (map b leaves) = tree_hash b t" "frontier t = leaves"
      "tree_inputs b t \<subseteq> ?S"
    using compute_merkle_root_tree [OF assms(1), of b] by auto
  obtain u where u: "compute_merkle_root b (map b leaves') = tree_hash b u" "frontier u = leaves'"
      "tree_inputs b u \<subseteq> ?S"
    using compute_merkle_root_tree [OF assms(2), of b] by auto
  have "t = u"
    using tree_hash_inj [OF _ assms(4) t(3) u(3)] assms(3,5) t u by simp
  then show ?thesis using t u by simp
qed

text \<open>The root is one of the hashes computed or, for a single leaf, that leaf.\<close>

lemma merkle_root_in_image:
  assumes "leaves \<noteq> []"
  shows "compute_merkle_root b (map b leaves)
     \<in> b ` (set leaves \<union> set (loop_inputs b (map b leaves)))"
proof -
  obtain t where "compute_merkle_root b (map b leaves) = tree_hash b t"
      "tree_inputs b t = set leaves \<union> set (loop_inputs b (map b leaves))"
    using compute_merkle_root_tree [OF assms, of b] by auto
  moreover have "tree_hash b t \<in> b ` tree_inputs b t" by (cases t) auto
  ultimately show ?thesis by simp
qed

end
