(* ===== verification/Blocks.thy ===== *)
theory Blocks
  imports Transactions Merkle
begin

text \<open>
  Quorum certificates (\<open>crates/types/src/quorum_certificate.rs\<close>), block headers, blocks and
  their stored form (\<open>crates/types/src/block.rs\<close>) and block votes (\<open>crates/types/src/lib.rs\<close>).

  Blake3 and the SBOR encoding of a header are code outside the repository; they are the
  fields of \<open>crypto_env\<close>.
\<close>

section \<open>Quorum certificates\<close>

record quorum_certificate =
  qc_block_hash :: hash
  qc_height :: block_height
  qc_parent_block_hash :: hash
  qc_round :: u64
  qc_signers :: signer_bitfield
  qc_aggregated_signature :: signature
  qc_voting_power :: u64
  qc_weighted_timestamp_ms :: u64

definition zero_bls_signature :: signature where
  "zero_bls_signature = replicate 96 0"

definition qc_genesis :: quorum_certificate where
  "qc_genesis = \<lparr>qc_block_hash = Hash_ZERO, qc_height = 0, qc_parent_block_hash = Hash_ZERO,
     qc_round = 0, qc_signers = bf_empty, qc_aggregated_signature = zero_bls_signature,
     qc_voting_power = 0, qc_weighted_timestamp_ms = 0\<rparr>"

definition qc_is_genesis :: "quorum_certificate \<Rightarrow> bool" where
  "qc_is_genesis qc \<longleftrightarrow> qc_height qc = 0 \<and> qc_block_hash qc = Hash_ZERO"

definition qc_signer_count :: "quorum_certificate \<Rightarrow> usize" where
  "qc_signer_count qc = bf_count_ones (qc_signers qc)"

definition qc_has_quorum :: "quorum_certificate \<Rightarrow> u64 \<Rightarrow> bool" where
  "qc_has_quorum qc total_power \<longleftrightarrow> has_quorum (qc_voting_power qc) total_power"

definition has_committable_block :: "quorum_certificate \<Rightarrow> bool" where
  "has_committable_block qc \<longleftrightarrow> qc_height qc > 0 \<and> \<not> qc_is_genesis qc"

definition committable_height :: "quorum_certificate \<Rightarrow> block_height option" where
  "committable_height qc = (if has_committable_block qc then Some (qc_height qc - 1) else None)"

definition committable_hash :: "quorum_certificate \<Rightarrow> hash option" where
  "committable_hash qc = (if has_committable_block qc then Some (qc_parent_block_hash qc) else None)"

section \<open>Headers and blocks\<close>

record block_header =
  hd_height :: block_height
  hd_parent_hash :: hash
  hd_parent_qc :: quorum_certificate
  hd_proposer :: validator_id
  hd_timestamp :: u64
  hd_round :: u64
  hd_is_fallback :: bool
  hd_state_root :: hash
  hd_state_version :: u64
  hd_transaction_root :: hash

record crypto_env =
  env_blake3 :: "bytes \<Rightarrow> hash"
  env_encode_header :: "block_header \<Rightarrow> bytes"
  env_sign :: "bytes \<Rightarrow> bytes \<Rightarrow> signature"

definition header_hash :: "crypto_env \<Rightarrow> block_header \<Rightarrow> hash" where
  "header_hash E h = env_blake3 E (env_encode_header E h)"

definition header_is_genesis :: "block_header \<Rightarrow> bool" where
  "header_is_genesis h \<longleftrightarrow> hd_height h = 0"

definition expected_proposer :: "block_header \<Rightarrow> u64 \<Rightarrow> validator_id" where
  "expected_proposer h num_validators = (hd_height h + hd_round h) mod num_validators"

record block =
  bl_header :: block_header
  bl_retry_transactions :: "routable_transaction list"
  bl_priority_transactions :: "routable_transaction list"
  bl_transactions :: "routable_transaction list"
  bl_certificates :: "transaction_certificate list"
  bl_deferred :: "transaction_defer list"
  bl_aborted :: "transaction_abort list"
  bl_commitment_proofs :: "(hash, commitment_proof) hmap"

definition block_hash :: "crypto_env \<Rightarrow> block \<Rightarrow> hash" where
  "block_hash E b = header_hash E (bl_header b)"

abbreviation bl_height :: "block \<Rightarrow> block_height" where
  "bl_height b \<equiv> hd_height (bl_header b)"

definition transaction_count :: "block \<Rightarrow> usize" where
  "transaction_count b = length (bl_retry_transactions b) + length (bl_priority_transactions b)
     + length (bl_transactions b)"

definition all_transactions :: "block \<Rightarrow> routable_transaction list" where
  "all_transactions b = bl_retry_transactions b @ bl_priority_transactions b @ bl_transactions b"

definition contains_transaction :: "block \<Rightarrow> hash \<Rightarrow> bool" where
  "contains_transaction b h \<longleftrightarrow> list_ex (\<lambda>tx. tx_hash tx = h) (all_transactions b)"

definition all_transaction_hashes :: "block \<Rightarrow> hash list" where
  "all_transaction_hashes b = map tx_hash (all_transactions b)"

definition block_genesis :: "quorum_certificate \<Rightarrow> block" where
  "block_genesis genesis_qc = \<lparr>bl_header =
       \<lparr>hd_height = 0, hd_parent_hash = Hash_ZERO, hd_parent_qc = genesis_qc, hd_proposer = 0,
        hd_timestamp = 0, hd_round = 0, hd_is_fallback = False, hd_state_root = Hash_ZERO,
        hd_state_version = 0, hd_transaction_root = Hash_ZERO\<rparr>,
     bl_retry_transactions = [], bl_priority_transactions = [], bl_transactions = [],
     bl_certificates = [], bl_deferred = [], bl_aborted = [], bl_commitment_proofs = hm_empty\<rparr>"

definition committed_transaction_hashes :: "block \<Rightarrow> hash list" where
  "committed_transaction_hashes b = map tc_transaction_hash (bl_certificates b)"

definition contains_certificate :: "block \<Rightarrow> hash \<Rightarrow> bool" where
  "contains_certificate b h \<longleftrightarrow> list_ex (\<lambda>c. tc_transaction_hash c = h) (bl_certificates b)"

definition contains_deferral :: "block \<Rightarrow> hash \<Rightarrow> bool" where
  "contains_deferral b h \<longleftrightarrow> list_ex (\<lambda>d. td_tx_hash d = h) (bl_deferred b)"

definition contains_abort :: "block \<Rightarrow> hash \<Rightarrow> bool" where
  "contains_abort b h \<longleftrightarrow> list_ex (\<lambda>a. ta_tx_hash a = h) (bl_aborted b)"

definition has_livelock_content :: "block \<Rightarrow> bool" where
  "has_livelock_content b \<longleftrightarrow> bl_deferred b \<noteq> [] \<or> bl_aborted b \<noteq> []"

section \<open>The transaction root\<close>

definition RETRY_TAG :: bytes where
  "RETRY_TAG = [82, 69, 84, 82, 89]"

definition PRIORITY_TAG :: bytes where
  "PRIORITY_TAG = [80, 82, 73, 79, 82, 73, 84, 89]"

definition NORMAL_TAG :: bytes where
  "NORMAL_TAG = [78, 79, 82, 77, 65, 76]"

definition compute_transaction_root :: "(bytes \<Rightarrow> hash) \<Rightarrow> routable_transaction list
    \<Rightarrow> routable_transaction list \<Rightarrow> routable_transaction list \<Rightarrow> hash" where
  "compute_transaction_root blake3 retries priority others =
     (let total_count = length retries + length priority + length others in
      if total_count = 0 then Hash_ZERO
      else compute_merkle_root blake3
        (map (\<lambda>tx. Hash_from_parts blake3 [RETRY_TAG, as_bytes (tx_hash tx)]) retries
         @ map (\<lambda>tx. Hash_from_parts blake3 [PRIORITY_TAG, as_bytes (tx_hash tx)]) priority
         @ map (\<lambda>tx. Hash_from_parts blake3 [NORMAL_TAG, as_bytes (tx_hash tx)]) others))"

text \<open>The leaf inputs of the root, and every byte string hashed on the way to it.\<close>

definition root_leaves :: "hash list \<Rightarrow> hash list \<Rightarrow> hash list \<Rightarrow> bytes list" where
  "root_leaves retries priority others =
     map (\<lambda>h. RETRY_TAG @ as_bytes h) retries @ map (\<lambda>h. PRIORITY_TAG @ as_bytes h) priority
       @ map (\<lambda>h. NORMAL_TAG @ as_bytes h) others"

definition root_inputs :: "(bytes \<Rightarrow> hash) \<Rightarrow> routable_transaction list \<Rightarrow> routable_transaction list
    \<Rightarrow> routable_transaction list \<Rightarrow> bytes list" where
  "root_inputs blake3 retries priority others =
     (let leaves = root_leaves (map tx_hash retries) (map tx_hash priority) (map tx_hash others)
      in leaves @ loop_inputs blake3 (map blake3 leaves))"

section \<open>Stored block metadata\<close>

record block_metadata =
  bm_header :: block_header
  bm_retry_hashes :: "hash list"
  bm_priority_hashes :: "hash list"
  bm_tx_hashes :: "hash list"
  bm_cert_hashes :: "hash list"
  bm_deferred :: "transaction_defer list"
  bm_aborted :: "transaction_abort list"
  bm_commitment_proofs :: "(hash, commitment_proof) hmap"
  bm_qc :: quorum_certificate

definition from_block :: "block \<Rightarrow> quorum_certificate \<Rightarrow> block_metadata" where
  "from_block b qc = \<lparr>bm_header = bl_header b,
     bm_retry_hashes = map tx_hash (bl_retry_transactions b),
     bm_priority_hashes = map tx_hash (bl_priority_transactions b),
     bm_tx_hashes = map tx_hash (bl_transactions b),
     bm_cert_hashes = map tc_transaction_hash (bl_certificates b),
     bm_deferred = bl_deferred b, bm_aborted = bl_aborted b,
     bm_commitment_proofs = bl_commitment_proofs b, bm_qc = qc\<rparr>"

definition all_tx_hashes :: "block_metadata \<Rightarrow> hash list" where
  "all_tx_hashes m = bm_retry_hashes m @ bm_priority_hashes m @ bm_tx_hashes m"

section \<open>Votes\<close>

record block_vote =
  bv_block_hash :: hash
  bv_height :: block_height
  bv_round :: u64
  bv_voter :: validator_id
  bv_signature :: signature
  bv_timestamp :: u64

definition vote_new :: "crypto_env \<Rightarrow> hash \<Rightarrow> block_height \<Rightarrow> u64 \<Rightarrow> validator_id \<Rightarrow> bytes \<Rightarrow> u64
    \<Rightarrow> block_vote" where
  "vote_new E b height round voter signing_key timestamp =
     \<lparr>bv_block_hash = b, bv_height = height, bv_round = round, bv_voter = voter,
      bv_signature = env_sign E signing_key (as_bytes b), bv_timestamp = timestamp\<rparr>"

section \<open>Facts\<close>

lemma has_committable_iff: "has_committable_block qc \<longleftrightarrow> qc_height qc > 0"
  by (auto simp: has_committable_block_def qc_is_genesis_def)

lemma qc_genesis_simps [simp]:
  "qc_is_genesis qc_genesis" "\<not> has_committable_block qc_genesis" "qc_height qc_genesis = 0"
  by (simp_all add: qc_genesis_def qc_is_genesis_def has_committable_iff)

lemma committable_height_next:
  "committable_height qc = Some h \<Longrightarrow> qc_height qc = next_height h \<and> h < qc_height qc"
  unfolding committable_height_def has_committable_iff next_height_def
  by (auto split: if_splits) (unat_arith)

lemma from_block_hashes: "all_tx_hashes (from_block b qc) = all_transaction_hashes b"
  by (simp add: all_tx_hashes_def from_block_def all_transaction_hashes_def all_transactions_def)

lemma root_leaves_eq:
  assumes "root_leaves r p t = root_leaves r' p' t'"
  shows "r = r' \<and> p = p' \<and> t = t'"
proof -
  define sec where "sec c = filter (\<lambda>b :: bytes. hd b = c)" for c
  have sections: "sec 82 (root_leaves r p t) = map (\<lambda>h. RETRY_TAG @ as_bytes h) r"
      "sec 80 (root_leaves r p t) = map (\<lambda>h. PRIORITY_TAG @ as_bytes h) p"
      "sec 78 (root_leaves r p t) = map (\<lambda>h. NORMAL_TAG @ as_bytes h) t" for r p t
    by (simp_all add: sec_def root_leaves_def RETRY_TAG_def PRIORITY_TAG_def NORMAL_TAG_def
        filter_map comp_def)
  have inj: "inj (map (\<lambda>h. tag @ as_bytes h))" for tag
    by (auto intro!: injI inj_mapI dest: as_bytes_inj)
  have "map (\<lambda>h. RETRY_TAG @ as_bytes h) r = map (\<lambda>h. RETRY_TAG @ as_bytes h) r'"
      "map (\<lambda>h. PRIORITY_TAG @ as_bytes h) p = map (\<lambda>h. PRIORITY_TAG @ as_bytes h) p'"
      "map (\<lambda>h. NORMAL_TAG @ as_bytes h) t = map (\<lambda>h. NORMAL_TAG @ as_bytes h) t'"
    using sections [of r p t] sections [of r' p' t'] unfolding assms by (simp_all only:)
  then show ?thesis by (blast dest: injD [OF inj])
qed

lemma root_leaves_length: "x \<in> set (root_leaves r p t) \<Longrightarrow> length x \<noteq> 64"
  by (auto simp: root_leaves_def RETRY_TAG_def PRIORITY_TAG_def NORMAL_TAG_def)

lemma root_leaves_empty: "root_leaves r p t = [] \<longleftrightarrow> r = [] \<and> p = [] \<and> t = []"
  by (simp add: root_leaves_def)

lemma compute_transaction_root_leaves:
  "compute_transaction_root b r p t =
     (let leaves = root_leaves (map tx_hash r) (map tx_hash p) (map tx_hash t) in
      if leaves = [] then Hash_ZERO else compute_merkle_root b (map b leaves))"
  by (simp add: compute_transaction_root_def root_leaves_def Let_def Hash_from_parts_def comp_def)

lemma transaction_root_determines_sections:
  assumes eq: "compute_transaction_root b r p t = compute_transaction_root b r' p' t'"
    and inj: "inj_on b (set (root_inputs b r p t) \<union> set (root_inputs b r' p' t'))"
    and nz: "Hash_ZERO \<notin> b ` (set (root_inputs b r p t) \<union> set (root_inputs b r' p' t'))"
  shows "map tx_hash r = map tx_hash r' \<and> map tx_hash p = map tx_hash p' \<and> map tx_hash t = map tx_hash t'"
proof -
  let ?L = "root_leaves (map tx_hash r) (map tx_hash p) (map tx_hash t)"
  let ?L' = "root_leaves (map tx_hash r') (map tx_hash p') (map tx_hash t')"
  have in1: "set (root_inputs b r p t) = set ?L \<union> set (loop_inputs b (map b ?L))"
    and in2: "set (root_inputs b r' p' t') = set ?L' \<union> set (loop_inputs b (map b ?L'))"
    by (simp_all add: root_inputs_def Let_def)
  have nz1: "compute_merkle_root b (map b ?L) \<noteq> Hash_ZERO" if "?L \<noteq> []"
    using merkle_root_in_image [OF that, of b] nz in1 by force
  have nz2: "compute_merkle_root b (map b ?L') \<noteq> Hash_ZERO" if "?L' \<noteq> []"
    using merkle_root_in_image [OF that, of b] nz in2 by force
  have "?L = ?L'"
  proof (cases "?L = [] \<or> ?L' = []")
    case True
    then show ?thesis
      using eq nz1 nz2 unfolding compute_transaction_root_leaves Let_def by (auto split: if_splits)
  next
    case False
    then show ?thesis
      using eq inj unfolding compute_transaction_root_leaves Let_def in1 in2
      by (intro merkle_root_binding [of _ _ b]) (auto dest: root_leaves_length simp: ac_simps)
  qed
  then show ?thesis by (rule root_leaves_eq)
qed

section \<open>An example\<close>

text \<open>
  A hash function for the evaluations, three bytes of the input, and two transactions.  It is
  injective and never zero on the inputs of the two roots that are compared.
\<close>

definition sample_hash :: "bytes \<Rightarrow> hash" where
  "sample_hash bs = 1 + ucast (bs ! 0) + 256 * ucast (bs ! 31) + 65536 * ucast (last bs)"

definition example_tx_a :: routable_transaction where
  "example_tx_a = tx_new (\<lambda>_. 10) id [1] [] []"

definition example_tx_b :: routable_transaction where
  "example_tx_b = tx_new (\<lambda>_. 20) id [2] [] []"

definition example_inputs :: "bytes list" where
  "example_inputs = remdups (root_inputs sample_hash [example_tx_a] [example_tx_b] []
     @ root_inputs sample_hash [] [example_tx_a, example_tx_b] [])"

lemma example_inputs_distinct: "distinct (0 # map sample_hash example_inputs)"
  by code_simp

section \<open>Properties\<close>

text \<open>
  C10: the transaction root of a header pins down the hashes of the block's transactions section
  by section, including which section each transaction is in and their order, as long as the
  hash function has no collision and no zero value among the inputs it is applied to.
\<close>

theorem transaction_root_binding:
  assumes "compute_transaction_root b r p t = compute_transaction_root b r' p' t'"
    and "inj_on b (set (root_inputs b r p t) \<union> set (root_inputs b r' p' t'))"
    and "Hash_ZERO \<notin> b ` (set (root_inputs b r p t) \<union> set (root_inputs b r' p' t'))"
  shows "map tx_hash r = map tx_hash r' \<and> map tx_hash p = map tx_hash p' \<and> map tx_hash t = map tx_hash t'"
  using assms by (rule transaction_root_determines_sections)

theorem transaction_root_binding_witness:
  "compute_transaction_root sample_hash [example_tx_a] [example_tx_b] []
   \<noteq> compute_transaction_root sample_hash [] [example_tx_a, example_tx_b] []"
proof -
  let ?I = "set (root_inputs sample_hash [example_tx_a] [example_tx_b] []) \<union> set (root_inputs sample_hash [] [example_tx_a, example_tx_b] [])"
  have "?I = set example_inputs" by (simp add: example_inputs_def)
  then have "inj_on sample_hash ?I" "Hash_ZERO \<notin> sample_hash ` ?I"
    using example_inputs_distinct by (simp_all add: distinct_map Hash_ZERO_def)
  then show ?thesis
    using transaction_root_binding [of sample_hash "[example_tx_a]" "[example_tx_b]" "[]" "[]" "[example_tx_a, example_tx_b]" "[]"]
    by auto
qed

end
