(* ===== verification/Topology.thy ===== *)
theory Topology
  imports Blocks
begin

text \<open>
  Validator sets (\<open>crates/types/src/validator.rs\<close>), the \<open>Topology\<close> trait with its derived
  methods and \<open>StaticTopology\<close> (\<open>crates/types/src/topology.rs\<close>).

  A \<open>dyn Topology\<close> is the record of the trait's required and overridable methods; the
  methods no implementation overrides are definitions over it.
\<close>

section \<open>Validator sets\<close>

record validator_info =
  vi_validator_id :: validator_id
  vi_public_key :: public_key
  vi_voting_power :: u64

record validator_set =
  vs_validators :: "validator_info list"

definition vs_new :: "validator_info list \<Rightarrow> validator_set" where
  "vs_new validators = \<lparr>vs_validators = sort_key vi_validator_id validators\<rparr>"

definition vs_total_voting_power :: "validator_set \<Rightarrow> u64" where
  "vs_total_voting_power vs = sum_list (map vi_voting_power (vs_validators vs))"

definition vs_get :: "validator_set \<Rightarrow> validator_id \<Rightarrow> validator_info option" where
  "vs_get vs v = List.find (\<lambda>i. vi_validator_id i = v) (vs_validators vs)"

definition vs_index_of :: "validator_set \<Rightarrow> validator_id \<Rightarrow> usize option" where
  "vs_index_of vs v = position (\<lambda>i. vi_validator_id i = v) (vs_validators vs)"

section \<open>The topology interface\<close>

record topology =
  local_validator_id :: validator_id
  local_shard :: shard_group_id
  num_shards :: u64
  committee_for_shard :: "shard_group_id \<Rightarrow> validator_id list"
  voting_power_for_shard :: "shard_group_id \<Rightarrow> u64"
  voting_power :: "validator_id \<Rightarrow> u64 option"
  public_key :: "validator_id \<Rightarrow> public_key option"
  global_validator_set :: validator_set
  shard_for_node_id :: "node_id \<Rightarrow> shard_group_id"
  current_epoch :: u64
  epoch_end_height :: block_height
  can_participate_in_consensus :: bool
  is_shard_splitting :: "shard_group_id \<Rightarrow> bool"

definition committee_size_for_shard :: "topology \<Rightarrow> shard_group_id \<Rightarrow> usize" where
  "committee_size_for_shard T shard = length (committee_for_shard T shard)"

definition committee_index_for_shard :: "topology \<Rightarrow> shard_group_id \<Rightarrow> validator_id \<Rightarrow> usize option" where
  "committee_index_for_shard T shard v = position (\<lambda>w. w = v) (committee_for_shard T shard)"

definition has_quorum_for_shard :: "topology \<Rightarrow> shard_group_id \<Rightarrow> u64 \<Rightarrow> bool" where
  "has_quorum_for_shard T shard voted \<longleftrightarrow> has_quorum voted (voting_power_for_shard T shard)"

definition quorum_threshold_for_shard :: "topology \<Rightarrow> shard_group_id \<Rightarrow> u64" where
  "quorum_threshold_for_shard T shard = (voting_power_for_shard T shard * 2) div 3 + 1"

definition local_committee :: "topology \<Rightarrow> validator_id list" where
  "local_committee T = committee_for_shard T (local_shard T)"

definition local_validator_at_index :: "topology \<Rightarrow> usize \<Rightarrow> validator_id option" where
  "local_validator_at_index T i =
     (let committee = local_committee T in
      if i < length committee then Some (committee ! i) else None)"

definition local_voting_power :: "topology \<Rightarrow> u64" where
  "local_voting_power T = voting_power_for_shard T (local_shard T)"

definition local_committee_size :: "topology \<Rightarrow> usize" where
  "local_committee_size T = committee_size_for_shard T (local_shard T)"

definition local_committee_index :: "topology \<Rightarrow> validator_id \<Rightarrow> usize option" where
  "local_committee_index T v = committee_index_for_shard T (local_shard T) v"

definition local_has_quorum :: "topology \<Rightarrow> u64 \<Rightarrow> bool" where
  "local_has_quorum T voted \<longleftrightarrow> has_quorum_for_shard T (local_shard T) voted"

definition is_committee_member :: "topology \<Rightarrow> validator_id \<Rightarrow> bool" where
  "is_committee_member T v \<longleftrightarrow> local_committee_index T v \<noteq> None"

text \<open>
  With an empty committee \<open>proposer_for\<close> divides by zero and panics; that is \<open>None\<close>.
  \<open>should_propose\<close> is false there, so the handlers below are those of a node whose shard
  has a committee.
\<close>

definition proposer_for :: "topology \<Rightarrow> u64 \<Rightarrow> u64 \<Rightarrow> validator_id option" where
  "proposer_for T height round =
     (let committee = local_committee T in
      if committee = [] then None
      else Some (committee ! (unat (height + round) mod length committee)))"

definition should_propose :: "topology \<Rightarrow> u64 \<Rightarrow> u64 \<Rightarrow> bool" where
  "should_propose T height round \<longleftrightarrow> proposer_for T height round = Some (local_validator_id T)"

definition consensus_shards :: "topology \<Rightarrow> routable_transaction \<Rightarrow> shard_group_id list" where
  "consensus_shards T tx = bset_list (map (shard_for_node_id T) (declared_writes tx))"

definition provisioning_shards :: "topology \<Rightarrow> routable_transaction \<Rightarrow> shard_group_id list" where
  "provisioning_shards T tx =
     (let write_shards = bset_list (map (shard_for_node_id T) (declared_writes tx)) in
      bset_list (filter (\<lambda>s. s \<notin> set write_shards) (map (shard_for_node_id T) (declared_reads tx))))"

definition is_cross_shard_transaction :: "topology \<Rightarrow> routable_transaction \<Rightarrow> bool" where
  "is_cross_shard_transaction T tx \<longleftrightarrow> length (consensus_shards T tx) > 1"

definition is_single_shard_transaction :: "topology \<Rightarrow> routable_transaction \<Rightarrow> bool" where
  "is_single_shard_transaction T tx \<longleftrightarrow> length (consensus_shards T tx) \<le> 1"

definition all_shards_for_transaction :: "topology \<Rightarrow> routable_transaction \<Rightarrow> shard_group_id list" where
  "all_shards_for_transaction T tx = bset_list (consensus_shards T tx @ provisioning_shards T tx)"

definition involves_local_shard_for_consensus :: "topology \<Rightarrow> routable_transaction \<Rightarrow> bool" where
  "involves_local_shard_for_consensus T tx \<longleftrightarrow>
     list_ex (\<lambda>n. shard_for_node_id T n = local_shard T) (declared_writes tx)"

definition involves_local_shard :: "topology \<Rightarrow> routable_transaction \<Rightarrow> bool" where
  "involves_local_shard T tx \<longleftrightarrow>
     list_ex (\<lambda>n. shard_for_node_id T n = local_shard T) (declared_writes tx @ declared_reads tx)"

definition is_node_in_splitting_shard :: "topology \<Rightarrow> node_id \<Rightarrow> bool" where
  "is_node_in_splitting_shard T n \<longleftrightarrow> is_shard_splitting T (shard_for_node_id T n)"

section \<open>StaticTopology\<close>

record shard_committee =
  sh_committee :: "validator_id list"
  sh_total_voting_power :: u64

record validator_info_internal =
  vii_voting_power :: u64
  vii_public_key :: public_key

record static_topology =
  st_local_validator_id :: validator_id
  st_local_shard :: shard_group_id
  st_num_shards :: u64
  st_shard_committees :: "(shard_group_id, shard_committee) hmap"
  st_validator_info :: "(validator_id, validator_info_internal) hmap"
  st_global_validator_set :: validator_set

definition info_of_set :: "validator_set \<Rightarrow> (validator_id, validator_info_internal) hmap" where
  "info_of_set vs = hm_collect (map (\<lambda>v. (vi_validator_id v,
     \<lparr>vii_voting_power = vi_voting_power v, vii_public_key = vi_public_key v\<rparr>)) (vs_validators vs))"

definition empty_committee :: shard_committee where
  "empty_committee = \<lparr>sh_committee = [], sh_total_voting_power = 0\<rparr>"

text \<open>The loop \<open>for shard_id in 0..num_shards\<close> over a \<open>u64\<close> range.\<close>

definition u64_range :: "u64 \<Rightarrow> u64 list" where
  "u64_range n = map word_of_nat [0..<unat n]"

definition empty_committees :: "u64 \<Rightarrow> (shard_group_id, shard_committee) hmap" where
  "empty_committees n = fold (\<lambda>s. hm_insert s empty_committee) (u64_range n) hm_empty"

definition push_member :: "validator_id \<Rightarrow> u64 \<Rightarrow> shard_committee \<Rightarrow> shard_committee" where
  "push_member v voted c = c\<lparr>sh_committee := sh_committee c @ [v],
     sh_total_voting_power := sh_total_voting_power c + voted\<rparr>"

definition static_new :: "validator_id \<Rightarrow> u64 \<Rightarrow> validator_set \<Rightarrow> static_topology" where
  "static_new local_validator n vs =
     (let committees = fold (\<lambda>v. hm_modify (vi_validator_id v mod n)
            (push_member (vi_validator_id v) (vi_voting_power v)))
          (vs_validators vs) (empty_committees n)
      in \<lparr>st_local_validator_id = local_validator, st_local_shard = local_validator mod n,
          st_num_shards = n, st_shard_committees = committees,
          st_validator_info = info_of_set vs, st_global_validator_set = vs\<rparr>)"

text \<open>\<open>with_local_shard\<close> panics (\<open>None\<close>) if the shard does not exist.\<close>

definition static_with_local_shard ::
    "validator_id \<Rightarrow> shard_group_id \<Rightarrow> u64 \<Rightarrow> validator_set \<Rightarrow> static_topology option" where
  "static_with_local_shard local_validator shard n vs =
     (case hm_get (empty_committees n) shard of
        None \<Rightarrow> None
      | Some committee \<Rightarrow>
          Some \<lparr>st_local_validator_id = local_validator, st_local_shard = shard, st_num_shards = n,
            st_shard_committees = hm_insert shard
              (fold (\<lambda>v. push_member (vi_validator_id v) (vi_voting_power v)) (vs_validators vs) committee)
              (empty_committees n),
            st_validator_info = info_of_set vs, st_global_validator_set = vs\<rparr>)"

definition static_with_shard_committees :: "validator_id \<Rightarrow> shard_group_id \<Rightarrow> u64 \<Rightarrow> validator_set
    \<Rightarrow> (shard_group_id, validator_id list) hmap \<Rightarrow> static_topology" where
  "static_with_shard_committees local_validator shard n vs shard_committees =
     (let info = info_of_set vs;
          add_validator = (\<lambda>v c. push_member v
            (case hm_get info v of Some i \<Rightarrow> vii_voting_power i | None \<Rightarrow> 1) c);
          committees = fold (\<lambda>(s, validators). hm_modify s (fold add_validator validators))
            (hm_entries shard_committees) (empty_committees n)
      in \<lparr>st_local_validator_id = local_validator, st_local_shard = shard, st_num_shards = n,
          st_shard_committees = committees, st_validator_info = info, st_global_validator_set = vs\<rparr>)"

definition static_committee :: "static_topology \<Rightarrow> shard_group_id \<Rightarrow> validator_id list" where
  "static_committee st shard =
     (case hm_get (st_shard_committees st) shard of Some c \<Rightarrow> sh_committee c | None \<Rightarrow> [])"

definition static_power_for_shard :: "static_topology \<Rightarrow> shard_group_id \<Rightarrow> u64" where
  "static_power_for_shard st shard =
     (case hm_get (st_shard_committees st) shard of Some c \<Rightarrow> sh_total_voting_power c | None \<Rightarrow> 0)"

definition static_voting_power :: "static_topology \<Rightarrow> validator_id \<Rightarrow> u64 option" where
  "static_voting_power st v = map_option vii_voting_power (hm_get (st_validator_info st) v)"

definition static_public_key :: "static_topology \<Rightarrow> validator_id \<Rightarrow> public_key option" where
  "static_public_key st v = map_option vii_public_key (hm_get (st_validator_info st) v)"

text \<open>The trait object: the overridable methods keep their default bodies.\<close>

definition static_topology_dyn :: "(bytes \<Rightarrow> hash) \<Rightarrow> static_topology \<Rightarrow> topology" where
  "static_topology_dyn blake3 st =
     \<lparr>local_validator_id = st_local_validator_id st, local_shard = st_local_shard st,
      num_shards = st_num_shards st, committee_for_shard = static_committee st,
      voting_power_for_shard = static_power_for_shard st, voting_power = static_voting_power st,
      public_key = static_public_key st, global_validator_set = st_global_validator_set st,
      shard_for_node_id = (\<lambda>n. shard_for_node blake3 n (st_num_shards st)),
      current_epoch = 0, epoch_end_height = u64_MAX, can_participate_in_consensus = True,
      is_shard_splitting = (\<lambda>_. False)\<rparr>"

section \<open>Committees of a static topology\<close>

lemma u64_range_set: "set (u64_range n) = {s. s < n}"
proof -
  have "s \<in> word_of_nat ` {0..<unat n}" if "s < n" for s :: u64
    using that by (intro image_eqI [of _ _ "unat s"]) (auto simp: word_less_nat_alt)
  moreover have "word_of_nat k < n" if "k < unat n" for k
    using that unat_less_u64 [of n] by (simp add: word_less_nat_alt unat_of_nat)
  ultimately show ?thesis by (auto simp: u64_range_def)
qed

lemma unat_of_small: "k < unat (n :: u64) \<Longrightarrow> unat (word_of_nat k :: u64) = k"
  using unat_less_u64 [of n] by (simp add: unat_of_nat)

lemma u64_range_distinct: "distinct (u64_range n)"
proof -
  have "inj_on (word_of_nat :: nat \<Rightarrow> u64) {0..<unat n}"
    by (rule inj_on_inverseI [of _ unat]) (rule unat_of_small, simp)
  then show ?thesis by (simp add: u64_range_def distinct_map)
qed

lemma hm_get_insert_all:
  "hm_get (fold (\<lambda>s. hm_insert s v) xs m) k = (if k \<in> set xs then Some v else hm_get m k)"
  by (induction xs arbitrary: m) (auto simp: hm_get_insert)

lemma empty_committees_get:
  "hm_get (empty_committees n) s = (if s < n then Some empty_committee else None)"
  by (simp add: empty_committees_def hm_get_insert_all u64_range_set)

lemma push_fold:
  "hm_get (fold (\<lambda>v. hm_modify (vi_validator_id v mod n)
            (push_member (vi_validator_id v) (vi_voting_power v))) vs m) s
   = map_option (\<lambda>c. fold (\<lambda>v. push_member (vi_validator_id v) (vi_voting_power v))
        (filter (\<lambda>v. vi_validator_id v mod n = s) vs) c) (hm_get m s)"
proof (induction vs arbitrary: m)
  case (Cons v vs)
  then show ?case by (simp add: hm_get_modify option.map_comp comp_def)
qed (simp add: option.map_id)

lemma fold_push_member:
  "fold (\<lambda>v. push_member (f v) (g v)) vs c =
     c\<lparr>sh_committee := sh_committee c @ map f vs,
       sh_total_voting_power := sh_total_voting_power c + sum_list (map g vs)\<rparr>"
  by (induction vs arbitrary: c) (auto simp: push_member_def add.assoc)

text \<open>The members and the power of a shard, specified from the validator set alone.\<close>

definition shard_members :: "u64 \<Rightarrow> validator_set \<Rightarrow> shard_group_id \<Rightarrow> validator_info list" where
  "shard_members n vs s =
     (if s < n then filter (\<lambda>v. vi_validator_id v mod n = s) (vs_validators vs) else [])"

lemma static_new_committee:
  "static_committee (static_new l n vs) s = map vi_validator_id (shard_members n vs s)"
  by (auto simp: static_committee_def static_new_def Let_def push_fold empty_committees_get
      fold_push_member empty_committee_def shard_members_def)

lemma static_new_power:
  "static_power_for_shard (static_new l n vs) s = sum_list (map vi_voting_power (shard_members n vs s))"
  by (auto simp: static_power_for_shard_def static_new_def Let_def push_fold empty_committees_get
      fold_push_member empty_committee_def shard_members_def)

definition vs_wf :: "validator_set \<Rightarrow> bool" where
  "vs_wf vs \<longleftrightarrow> distinct (map vi_validator_id (vs_validators vs))"

lemma info_of_set_get:
  assumes "vs_wf vs" "v \<in> set (vs_validators vs)"
  shows "hm_get (info_of_set vs) (vi_validator_id v)
     = Some \<lparr>vii_voting_power = vi_voting_power v, vii_public_key = vi_public_key v\<rparr>"
proof -
  let ?kvs = "map (\<lambda>v. (vi_validator_id v,
     \<lparr>vii_voting_power = vi_voting_power v, vii_public_key = vi_public_key v\<rparr>)) (vs_validators vs)"
  have "distinct (map fst ?kvs)" using assms(1) by (simp add: vs_wf_def comp_def)
  then have "hm_get (info_of_set vs) = map_of ?kvs"
    unfolding info_of_set_def by (rule hm_get_collect_distinct)
  moreover have "map_of ?kvs (vi_validator_id v)
      = Some \<lparr>vii_voting_power = vi_voting_power v, vii_public_key = vi_public_key v\<rparr>"
    using assms(2) \<open>distinct (map fst ?kvs)\<close> by (intro map_of_is_SomeI) auto
  ultimately show ?thesis by (simp only:)
qed

section \<open>The committee contract\<close>

text \<open>
  What the consumers of a topology rely on: committees list distinct validators of known
  power, and the shard total is the sum over the committee.
\<close>

locale committee_provider =
  fixes valid :: "'t \<Rightarrow> bool"
    and committee :: "'t \<Rightarrow> shard_group_id \<Rightarrow> validator_id list"
    and total_power :: "'t \<Rightarrow> shard_group_id \<Rightarrow> u64"
    and member_power :: "'t \<Rightarrow> validator_id \<Rightarrow> u64 option"
  assumes committee_distinct: "valid t \<Longrightarrow> distinct (committee t s)"
    and member_known: "valid t \<Longrightarrow> v \<in> set (committee t s) \<Longrightarrow> member_power t v \<noteq> None"
    and total_is_sum: "valid t \<Longrightarrow>
      total_power t s = sum_list (map (\<lambda>v. the (member_power t v)) (committee t s))"
begin

definition pw :: "'t \<Rightarrow> validator_id \<Rightarrow> u64" where
  "pw t v = the (member_power t v)"

lemma total_power_of: "valid t \<Longrightarrow> total_power t s = power_of (pw t) (set (committee t s))"
  using committee_distinct [of t s] total_is_sum [of t s]
  by (simp add: power_of_def pw_def sum_list_distinct_conv_sum_set)

lemma quorum_iff:
  assumes "valid t" "A \<subseteq> set (committee t s)" "total_in_range (pw t) (set (committee t s))"
  shows "has_quorum (power_of (pw t) A) (total_power t s) \<longleftrightarrow> quorum_of (pw t) (set (committee t s)) A"
  using assms by (simp add: quorum_of_def total_power_of)

lemma quorums_share_correct_member:
  assumes "valid t" "total_in_range (pw t) (set (committee t s))"
    and "A \<subseteq> set (committee t s)" "has_quorum (power_of (pw t) A) (total_power t s)"
    and "B \<subseteq> set (committee t s)" "has_quorum (power_of (pw t) B) (total_power t s)"
    and "tolerated_in (pw t) (set (committee t s)) F"
  shows "\<exists>v \<in> A \<inter> B. v \<notin> F"
proof -
  have "quorum_of (pw t) (set (committee t s)) A" "quorum_of (pw t) (set (committee t s)) B"
    using assms(4,6) quorum_iff [OF assms(1,3,2)] quorum_iff [OF assms(1,5,2)] by simp_all
  then show ?thesis using assms(7) by (rule vp.intersect)
qed

end

definition static_valid :: "static_topology \<Rightarrow> bool" where
  "static_valid st \<longleftrightarrow> vs_wf (st_global_validator_set st)
     \<and> (\<exists>l n. st = static_new l n (st_global_validator_set st))"

lemma static_valid_new: "vs_wf vs \<Longrightarrow> static_valid (static_new l n vs)"
  unfolding static_valid_def by (auto simp: static_new_def Let_def)

lemma static_new_voting_power:
  "vs_wf vs \<Longrightarrow> v \<in> set (vs_validators vs) \<Longrightarrow>
   static_voting_power (static_new l n vs) (vi_validator_id v) = Some (vi_voting_power v)"
  using info_of_set_get [of vs v] by (simp add: static_voting_power_def static_new_def Let_def)

lemma shard_members_sub: "set (shard_members n vs s) \<subseteq> set (vs_validators vs)"
  by (auto simp: shard_members_def)

interpretation static_top: committee_provider static_valid static_committee static_power_for_shard
  static_voting_power
proof
  fix t s v
  assume "static_valid t"
  then obtain l n vs where t: "t = static_new l n vs" and wf: "vs_wf vs"
    unfolding static_valid_def by blast
  note power_known = static_new_voting_power [OF wf, of _ l n]
  show "distinct (static_committee t s)"
    using wf by (simp add: t static_new_committee shard_members_def vs_wf_def distinct_map_filter)
  show "v \<in> set (static_committee t s) \<Longrightarrow> static_voting_power t v \<noteq> None"
    using power_known shard_members_sub [of n vs s] by (auto simp: t static_new_committee)
  have "map (\<lambda>v. the (static_voting_power t (vi_validator_id v))) (shard_members n vs s)
      = map vi_voting_power (shard_members n vs s)"
    using power_known shard_members_sub [of n vs s] by (auto simp: t)
  then show "static_power_for_shard t s =
      sum_list (map (\<lambda>v. the (static_voting_power t v)) (static_committee t s))"
    by (simp only: t static_new_committee static_new_power map_map comp_def)
qed

text \<open>Every validator sits in exactly one committee, that of its identifier modulo the shards.\<close>

lemma static_new_member_iff:
  assumes "0 < n"
  shows "v \<in> set (static_committee (static_new l n vs) s) \<longleftrightarrow>
     v \<in> vi_validator_id ` set (vs_validators vs) \<and> s = v mod n"
  using assms by (auto simp: static_new_committee shard_members_def word_mod_less_divisor)

section \<open>Proposer rotation\<close>

lemma proposer_for_member:
  "local_committee T \<noteq> [] \<Longrightarrow> \<exists>v \<in> set (local_committee T). proposer_for T h r = Some v"
  by (auto simp: proposer_for_def Let_def)

text \<open>Over as many consecutive rounds as there are members, each member gets a turn.\<close>

lemma proposer_rotation:
  assumes v: "v \<in> set (local_committee T)" and len: "length (local_committee T) \<le> 2 ^ 63"
    and small: "unat h + unat r < 2 ^ 63"
  shows "\<exists>k < length (local_committee T). proposer_for T h (r + word_of_nat k) = Some v"
proof -
  let ?n = "length (local_committee T)"
  obtain i where i: "i < ?n" "local_committee T ! i = v" using v by (metis in_set_conv_nth)
  define a where "a = unat h + unat r"
  define k where "k = (i + (?n - a mod ?n)) mod ?n"
  have n: "0 < ?n" using i(1) by linarith
  have k: "k < ?n" using n by (simp add: k_def)
  have "(a + k) mod ?n = (a mod ?n + (i + (?n - a mod ?n))) mod ?n"
    unfolding k_def by (metis mod_add_left_eq mod_add_right_eq)
  also have "a mod ?n + (i + (?n - a mod ?n)) = i + ?n"
    using mod_less_divisor [OF n, of a] by linarith
  finally have sum: "(a + k) mod ?n = i" using i by simp
  have lt: "unat h + unat r + k < 18446744073709551616" using small k len by simp
  then have "unat (word_of_nat k :: u64) = k" by (simp add: unat_of_nat)
  then have "unat (h + (r + word_of_nat k)) = a + k"
    using lt by (simp add: unat_word_ariths a_def add.assoc)
  then have "proposer_for T h (r + word_of_nat k) = Some v"
    using i sum n by (auto simp: proposer_for_def Let_def)
  then show ?thesis using k by blast
qed

section \<open>Properties\<close>

text \<open>Four validators of equal power in one shard, on which the properties are evaluated.\<close>

definition four_validators :: validator_set where
  "four_validators = vs_new (map (\<lambda>i. \<lparr>vi_validator_id = i, vi_public_key = [], vi_voting_power = 1\<rparr>) [0, 1, 2, 3])"

lemma four_validators_wf: "vs_wf four_validators"
  by (simp add: four_validators_def vs_wf_def vs_new_def)

lemma four_committee:
  "static_committee (static_new 0 1 four_validators) 0 = [0, 1, 2, 3]"
  "static_power_for_shard (static_new 0 1 four_validators) 0 = 4"
  by (simp_all add: static_new_committee static_new_power shard_members_def four_validators_def vs_new_def)

lemma four_power:
  "i \<in> {0, 1, 2, 3} \<Longrightarrow> static_voting_power (static_new 0 1 four_validators) i = Some 1"
  using static_new_voting_power [OF four_validators_wf, of "\<lparr>vi_validator_id = i, vi_public_key = [], vi_voting_power = 1\<rparr>" 0 1]
  by (auto simp: four_validators_def vs_new_def)

text \<open>
  C2: two certificates of one shard cannot disagree: if the validators without the right to
  misbehave vote for one block only, and the others hold less than a third of the power, two
  sets of votes that each reach the quorum rule of the code are votes for the same block,
  provided the total power is small enough for the products of the rule not to wrap around.
\<close>

theorem certificates_agree:
  fixes T :: static_topology and votes :: "validator_id \<Rightarrow> 'b \<Rightarrow> bool"
  assumes "static_valid T"
    and "total_in_range (\<lambda>v. the (static_voting_power T v)) (set (static_committee T s))"
    and "tolerated_in (\<lambda>v. the (static_voting_power T v)) (set (static_committee T s)) F"
    and single: "\<And>v b c. v \<notin> F \<Longrightarrow> votes v b \<Longrightarrow> votes v c \<Longrightarrow> b = c"
    and "A \<subseteq> set (static_committee T s)" "\<And>v. v \<in> A \<Longrightarrow> votes v b"
      "has_quorum (power_of (\<lambda>v. the (static_voting_power T v)) A) (static_power_for_shard T s)"
    and "B \<subseteq> set (static_committee T s)" "\<And>v. v \<in> B \<Longrightarrow> votes v c"
      "has_quorum (power_of (\<lambda>v. the (static_voting_power T v)) B) (static_power_for_shard T s)"
  shows "b = c"
proof -
  have pw: "static_top.pw T = (\<lambda>v. the (static_voting_power T v))" by (rule ext) (simp add: static_top.pw_def)
  obtain v where "v \<in> A" "v \<in> B" "v \<notin> F"
    using static_top.quorums_share_correct_member [of T s A B F] assms unfolding pw by blast
  then show ?thesis using assms(6,9) single by blast
qed

theorem certificates_agree_witness:
  fixes vote :: "validator_id \<Rightarrow> hash"
  defines "vote \<equiv> (\<lambda>v. if v = 3 then 8 else 7)"
  shows "has_quorum 3 (static_power_for_shard (static_new 0 1 four_validators) 0) \<and> vote 0 = vote 2"
proof -
  let ?T = "static_new 0 1 four_validators"
  let ?pw = "\<lambda>v. the (static_voting_power ?T v)"
  have power: "power_of ?pw {0, 1, 2} = 3" by (simp add: power_of_def four_power)
  have quorum: "has_quorum 3 (static_power_for_shard ?T 0)" by (simp add: four_committee has_quorum_def)
  have "{3 :: validator_id} \<inter> {0, 1, 2, 3} = {3}" by auto
  then have bounds: "total_in_range ?pw (set (static_committee ?T 0))" "tolerated_in ?pw (set (static_committee ?T 0)) {3}"
    by (simp_all add: four_committee total_in_range_def tolerated_in_def four_power)
  have "vote 0 = vote 2"
    by (rule certificates_agree [OF static_valid_new [OF four_validators_wf] bounds,
          where votes = "\<lambda>v b. v \<noteq> 3 \<and> b = vote v" and A = "{0, 1, 2}" and B = "{0, 1, 2}"])
      (use power quorum in \<open>auto simp: four_committee vote_def\<close>)
  then show ?thesis using quorum by blast
qed

text \<open>
  C26: the committees of a static topology partition the validator set: a validator belongs to
  the committee of the shard its identifier falls into modulo the number of shards and to no
  other, in the order of the set, and a shard's power is the sum of its members' powers.
\<close>

theorem static_committees_partition:
  assumes "vs_wf vs" "0 < n"
  shows "(v \<in> set (static_committee (static_new l n vs) s) \<longleftrightarrow>
       v \<in> vi_validator_id ` set (vs_validators vs) \<and> s = v mod n)
    \<and> distinct (static_committee (static_new l n vs) s)
    \<and> static_power_for_shard (static_new l n vs) s
        = sum_list (map (\<lambda>v. the (static_voting_power (static_new l n vs) v)) (static_committee (static_new l n vs) s))"
  using static_new_member_iff [OF assms(2)] static_top.committee_distinct static_top.total_is_sum
    static_valid_new [OF assms(1)] by blast

theorem static_committees_partition_witness:
  "(3 \<in> set (static_committee (static_new 0 2 four_validators) 1) \<longleftrightarrow> (3 :: u64) \<in> {0, 1, 2, 3} \<and> (1 :: u64) = 3 mod 2)
   \<and> distinct (static_committee (static_new 0 2 four_validators) 1)"
  using static_committees_partition [OF four_validators_wf, of 2 3 0 1]
  by (simp add: four_validators_def vs_new_def)

text \<open>
  C12: no validator is skipped by the rotation of proposers: counting from any round of any
  height, each committee member is the proposer of one of the next rounds, at most as many as
  the committee has members, as long as height plus round and the committee size stay below the
  wrap-around of 64 bits (each at most 2 to the 63).
\<close>

theorem every_member_gets_to_propose:
  assumes "v \<in> set (local_committee T)" "length (local_committee T) \<le> 2 ^ 63" "unat h + unat r < 2 ^ 63"
  shows "\<exists>k < length (local_committee T). proposer_for T h (r + word_of_nat k) = Some v"
  using assms by (rule proposer_rotation)

theorem every_member_gets_to_propose_witness:
  "\<exists>k < 4. proposer_for (static_topology_dyn (\<lambda>_. 0) (static_new 0 1 four_validators)) 5 1 = Some 2
     \<and> proposer_for (static_topology_dyn (\<lambda>_. 0) (static_new 0 1 four_validators)) 5 (7 + word_of_nat k) = Some 3"
proof -
  let ?T = "static_topology_dyn (\<lambda>_. 0) (static_new 0 1 four_validators)"
  have "st_local_shard (static_new 0 1 four_validators) = 0" by (simp add: static_new_def Let_def)
  then have "local_committee ?T = [0, 1, 2, 3]"
    by (simp add: local_committee_def static_topology_dyn_def four_committee)
  then have "length (local_committee ?T) = 4" "3 \<in> set (local_committee ?T)" "proposer_for ?T 5 1 = Some 2"
    by (simp_all add: proposer_for_def)
  then show ?thesis using every_member_gets_to_propose [of 3 ?T 5 7] by auto
qed

end
