(* ===== verification/Vote_Set.thy ===== *)
theory Vote_Set
  imports Topology
begin

text \<open>
  \<open>VoteSet\<close> of \<open>crates/bft/src/vote_set.rs\<close>: the votes for one block, buffered unverified
  until they could make a quorum, then taken as one batch.
\<close>

type_synonym verified_vote = "usize \<times> block_vote \<times> u64"
type_synonym unverified_vote = "usize \<times> block_vote \<times> public_key \<times> u64"

record vote_set =
  vset_block_hash :: "hash option"
  vset_height :: "block_height option"
  vset_round :: "u64 option"
  vset_parent_block_hash :: "hash option"
  verified_votes :: "verified_vote list"
  verified_power :: u64
  verified_timestamp_weight_sum :: u128
  unverified_votes :: "unverified_vote list"
  unverified_power :: u64
  seen_validators :: "bool list"
  pending_verification :: bool
  qc_built :: bool

definition vset_new :: "crypto_env \<Rightarrow> block_header option \<Rightarrow> usize \<Rightarrow> vote_set" where
  "vset_new E header num_validators =
     \<lparr>vset_block_hash = map_option (header_hash E) header, vset_height = map_option hd_height header,
      vset_round = map_option hd_round header, vset_parent_block_hash = map_option hd_parent_hash header,
      verified_votes = [], verified_power = 0, verified_timestamp_weight_sum = 0,
      unverified_votes = [], unverified_power = 0,
      seen_validators = replicate num_validators False,
      pending_verification = False, qc_built = False\<rparr>"

definition has_seen_validator :: "vote_set \<Rightarrow> usize \<Rightarrow> bool" where
  "has_seen_validator vs i \<longleftrightarrow> i < length (seen_validators vs) \<and> seen_validators vs ! i"

definition set_header :: "crypto_env \<Rightarrow> block_header \<Rightarrow> vote_set \<Rightarrow> vote_set" where
  "set_header E h vs =
     vs\<lparr>vset_height := (if vset_height vs = None then Some (hd_height h) else vset_height vs),
        vset_round := (if vset_round vs = None then Some (hd_round h) else vset_round vs),
        vset_parent_block_hash := (if vset_parent_block_hash vs = None then Some (hd_parent_hash h)
                                   else vset_parent_block_hash vs),
        vset_block_hash := (if vset_block_hash vs = None then Some (header_hash E h)
                            else vset_block_hash vs)\<rparr>"

text \<open>The first vote fixes block, height and round if no header did.\<close>

definition fix_block :: "block_vote \<Rightarrow> vote_set \<Rightarrow> vote_set" where
  "fix_block vote vs =
     (if vset_block_hash vs = None
      then vs\<lparr>vset_block_hash := Some (bv_block_hash vote), vset_height := Some (bv_height vote),
              vset_round := Some (bv_round vote)\<rparr>
      else vs)"

definition mark_seen :: "usize \<Rightarrow> vote_set \<Rightarrow> vote_set" where
  "mark_seen i vs =
     (if i < length (seen_validators vs)
      then vs\<lparr>seen_validators := (seen_validators vs)[i := True]\<rparr> else vs)"

definition buffer_unverified_vote ::
    "usize \<Rightarrow> block_vote \<Rightarrow> public_key \<Rightarrow> u64 \<Rightarrow> vote_set \<Rightarrow> vote_set \<times> bool" where
  "buffer_unverified_vote i vote key voted vs =
     (if has_seen_validator vs i then (vs, False)
      else
        let vs1 = mark_seen i (fix_block vote vs) in
        (vs1\<lparr>unverified_power := unverified_power vs1 + voted,
             unverified_votes := unverified_votes vs1 @ [(i, vote, key, voted)]\<rparr>, True))"

definition should_trigger_verification :: "vote_set \<Rightarrow> u64 \<Rightarrow> bool" where
  "should_trigger_verification vs total_committee_power \<longleftrightarrow>
     \<not> pending_verification vs \<and> \<not> qc_built vs \<and> unverified_votes vs \<noteq> []
     \<and> vset_parent_block_hash vs \<noteq> None
     \<and> has_quorum (verified_power vs + unverified_power vs) total_committee_power"

definition take_unverified_votes :: "vote_set \<Rightarrow> vote_set \<times> unverified_vote list" where
  "take_unverified_votes vs =
     (vs\<lparr>pending_verification := True, unverified_power := 0, unverified_votes := []\<rparr>,
      unverified_votes vs)"

definition verification_data :: "vote_set \<Rightarrow> (hash \<times> block_height \<times> u64 \<times> hash) option" where
  "verification_data vs =
     (case (vset_block_hash vs, vset_height vs, vset_parent_block_hash vs) of
        (Some b, Some h, Some p) \<Rightarrow>
          Some (b, h, (case vset_round vs of Some r \<Rightarrow> r | None \<Rightarrow> 0), p)
      | _ \<Rightarrow> None)"

definition on_qc_built :: "vote_set \<Rightarrow> vote_set" where
  "on_qc_built vs = vs\<lparr>qc_built := True, pending_verification := False\<rparr>"

definition push_verified :: "verified_vote \<Rightarrow> vote_set \<Rightarrow> vote_set" where
  "push_verified = (\<lambda>(i, vote, voted) vs.
     vs\<lparr>verified_timestamp_weight_sum :=
          verified_timestamp_weight_sum vs + ucast (bv_timestamp vote) * ucast voted,
        verified_power := verified_power vs + voted,
        verified_votes := verified_votes vs @ [(i, vote, voted)]\<rparr>)"

definition on_votes_verified :: "verified_vote list \<Rightarrow> vote_set \<Rightarrow> vote_set" where
  "on_votes_verified votes vs = fold push_verified votes (vs\<lparr>pending_verification := False\<rparr>)"

definition add_verified_vote :: "usize \<Rightarrow> block_vote \<Rightarrow> u64 \<Rightarrow> vote_set \<Rightarrow> vote_set \<times> bool" where
  "add_verified_vote i vote voted vs =
     (if has_seen_validator vs i then (vs, False)
      else (push_verified (i, vote, voted) (mark_seen i (fix_block vote vs)), True))"

section \<open>The invariant\<close>

definition vote_index :: "verified_vote \<Rightarrow> usize" where
  "vote_index = fst"

abbreviation vote_power :: "verified_vote \<Rightarrow> u64" where
  "vote_power \<equiv> \<lambda>(_, _, p). p"

abbreviation uvote_power :: "unverified_vote \<Rightarrow> u64" where
  "uvote_power \<equiv> \<lambda>(_, _, _, p). p"

definition held_indices :: "vote_set \<Rightarrow> usize list" where
  "held_indices vs = map fst (verified_votes vs) @ map fst (unverified_votes vs)"

text \<open>
  The counters are the sums over the held votes, every held vote is from a committee member
  that is marked seen, and no member is held twice.
\<close>

definition vset_sums :: "vote_set \<Rightarrow> bool" where
  "vset_sums vs \<longleftrightarrow>
     verified_power vs = sum_list (map vote_power (verified_votes vs))
     \<and> unverified_power vs = sum_list (map uvote_power (unverified_votes vs))
     \<and> verified_timestamp_weight_sum vs =
         sum_list (map (\<lambda>(_, v, p). ucast (bv_timestamp v) * ucast p) (verified_votes vs))"

definition vset_wf :: "vote_set \<Rightarrow> bool" where
  "vset_wf vs \<longleftrightarrow> vset_sums vs \<and> distinct (held_indices vs)
     \<and> (\<forall>i \<in> set (held_indices vs). has_seen_validator vs i)"

lemmas vset_defs = vset_wf_def vset_sums_def held_indices_def has_seen_validator_def

lemma fix_block_simps [simp]:
  "verified_votes (fix_block v vs) = verified_votes vs" "verified_power (fix_block v vs) = verified_power vs"
  "verified_timestamp_weight_sum (fix_block v vs) = verified_timestamp_weight_sum vs"
  "unverified_votes (fix_block v vs) = unverified_votes vs"
  "unverified_power (fix_block v vs) = unverified_power vs"
  "seen_validators (fix_block v vs) = seen_validators vs"
  by (simp_all add: fix_block_def)

lemma mark_seen_simps [simp]:
  "verified_votes (mark_seen i vs) = verified_votes vs" "verified_power (mark_seen i vs) = verified_power vs"
  "verified_timestamp_weight_sum (mark_seen i vs) = verified_timestamp_weight_sum vs"
  "unverified_votes (mark_seen i vs) = unverified_votes vs"
  "unverified_power (mark_seen i vs) = unverified_power vs"
  "length (seen_validators (mark_seen i vs)) = length (seen_validators vs)"
  by (simp_all add: mark_seen_def)

lemma has_seen_mark [simp]:
  "has_seen_validator (mark_seen i vs) j \<longleftrightarrow>
     has_seen_validator vs j \<or> (j = i \<and> i < length (seen_validators vs))"
  by (auto simp: has_seen_validator_def mark_seen_def nth_list_update)

lemma has_seen_cong: "seen_validators vs = seen_validators vs' \<Longrightarrow> has_seen_validator vs = has_seen_validator vs'"
  by (auto simp: has_seen_validator_def)

lemma vset_wf_new: "vset_wf (vset_new E h n)"
  by (simp add: vset_defs vset_new_def)

lemma vset_wf_set_header: "vset_wf vs \<Longrightarrow> vset_wf (set_header E h vs)"
  by (simp add: vset_defs set_header_def)

lemma vset_wf_on_qc_built: "vset_wf vs \<Longrightarrow> vset_wf (on_qc_built vs)"
  by (simp add: vset_defs on_qc_built_def)

lemma vset_wf_take: "vset_wf vs \<Longrightarrow> vset_wf (fst (take_unverified_votes vs))"
  by (auto simp: vset_defs take_unverified_votes_def)

lemma vset_wf_buffer:
  assumes "vset_wf vs" "i < length (seen_validators vs)"
  shows "vset_wf (fst (buffer_unverified_vote i v k p vs))"
proof (cases "has_seen_validator vs i")
  case True
  then show ?thesis using assms by (simp add: buffer_unverified_vote_def)
next
  case False
  let ?vs1 = "mark_seen i (fix_block v vs)"
  let ?vs = "?vs1\<lparr>unverified_power := unverified_power ?vs1 + p,
             unverified_votes := unverified_votes ?vs1 @ [(i, v, k, p)]\<rparr>"
  have seen: "has_seen_validator ?vs j \<longleftrightarrow> has_seen_validator vs j \<or> j = i" for j
    using has_seen_cong [of ?vs ?vs1] has_seen_cong [of "fix_block v vs" vs] assms(2) by simp
  have "i \<notin> set (held_indices vs)" using assms(1) False by (auto simp: vset_wf_def)
  then have "vset_wf ?vs"
    using assms(1) seen unfolding vset_wf_def by (auto simp: vset_sums_def held_indices_def)
  then show ?thesis using False by (simp add: buffer_unverified_vote_def Let_def)
qed

lemma vset_wf_add_verified:
  assumes "vset_wf vs" "i < length (seen_validators vs)"
  shows "vset_wf (fst (add_verified_vote i v p vs))"
proof (cases "has_seen_validator vs i")
  case True
  then show ?thesis using assms by (simp add: add_verified_vote_def)
next
  case False
  let ?vs1 = "mark_seen i (fix_block v vs)"
  let ?vs = "push_verified (i, v, p) ?vs1"
  have seen: "has_seen_validator ?vs j \<longleftrightarrow> has_seen_validator vs j \<or> j = i" for j
    using has_seen_cong [of ?vs ?vs1] has_seen_cong [of "fix_block v vs" vs] assms(2)
    by (simp add: push_verified_def)
  have "i \<notin> set (held_indices vs)" using assms(1) False by (auto simp: vset_wf_def)
  then have "vset_wf ?vs"
    using assms(1) seen unfolding vset_wf_def
    by (auto simp: vset_sums_def held_indices_def push_verified_def)
  then show ?thesis using False by (simp add: add_verified_vote_def)
qed

text \<open>
  A verified batch keeps the sums; it keeps the whole invariant exactly when it brings no
  member already held.
\<close>

lemma fold_push_verified:
  "verified_votes (fold push_verified votes vs) = verified_votes vs @ votes"
  "unverified_votes (fold push_verified votes vs) = unverified_votes vs"
  "unverified_power (fold push_verified votes vs) = unverified_power vs"
  "seen_validators (fold push_verified votes vs) = seen_validators vs"
  by (induction votes arbitrary: vs) (auto simp: push_verified_def split: prod.splits)

lemma fold_push_sums: "vset_sums vs \<Longrightarrow> vset_sums (fold push_verified votes vs)"
  by (induction votes arbitrary: vs) (auto simp: push_verified_def vset_sums_def split: prod.splits)

lemma vset_sums_on_votes_verified: "vset_sums vs \<Longrightarrow> vset_sums (on_votes_verified votes vs)"
  unfolding on_votes_verified_def by (rule fold_push_sums) (simp add: vset_sums_def)

lemma on_votes_verified_votes [simp]:
  "verified_votes (on_votes_verified votes vs) = verified_votes vs @ votes"
  "unverified_votes (on_votes_verified votes vs) = unverified_votes vs"
  "seen_validators (on_votes_verified votes vs) = seen_validators vs"
  by (simp_all add: on_votes_verified_def fold_push_verified)

lemma vset_wf_on_votes_verified:
  assumes "vset_wf vs" "\<forall>i \<in> set (map fst votes). has_seen_validator vs i"
  shows "vset_wf (on_votes_verified votes vs) \<longleftrightarrow>
     distinct (map fst votes) \<and> set (map fst votes) \<inter> set (held_indices vs) = {}"
  using assms has_seen_cong [of "on_votes_verified votes vs" vs] vset_sums_on_votes_verified [of vs votes]
  unfolding vset_wf_def by (auto simp: held_indices_def)

text \<open>Once a vote is held, later votes of that member change nothing.\<close>

lemma duplicate_vote_ignored:
  "vset_wf vs \<Longrightarrow> i \<in> set (held_indices vs) \<Longrightarrow>
   buffer_unverified_vote i v k p vs = (vs, False) \<and> add_verified_vote i v p vs = (vs, False)"
  by (simp add: vset_wf_def buffer_unverified_vote_def add_verified_vote_def)

section \<open>Properties\<close>

text \<open>
  C18: a batch of verified votes of members that the vote set has marked as seen keeps an exact set
  exact (the counters equal the sums over the held votes, no member is held twice) if and only
  if no member occurs twice in the batch and none of them is already held: the operation itself
  does not look for duplicates.
\<close>

theorem verified_batch_exact:
  assumes "vset_wf vs" "\<forall>i \<in> set (map fst votes). has_seen_validator vs i"
  shows "vset_wf (on_votes_verified votes vs) \<longleftrightarrow>
     distinct (map fst votes) \<and> set (map fst votes) \<inter> set (held_indices vs) = {}"
  using assms by (rule vset_wf_on_votes_verified)

theorem verified_batch_exact_witness:
  "\<forall>E v. \<not> vset_wf (on_votes_verified [(1, v, 1)] (fst (add_verified_vote 1 v 1 (vset_new E None 4))))"
proof (intro allI)
  fix E v
  define vs where "vs = fst (add_verified_vote 1 v 1 (vset_new E None 4))"
  have vs: "vset_wf vs"
    unfolding vs_def by (rule vset_wf_add_verified) (simp_all add: vset_wf_new, simp add: vset_new_def)
  have held: "1 \<in> set (held_indices vs)"
    by (simp add: vs_def add_verified_vote_def held_indices_def has_seen_validator_def vset_new_def push_verified_def)
  have "\<forall>i \<in> set (map fst [(1, v, 1)]). has_seen_validator vs i" using vs held by (simp add: vset_wf_def)
  from verified_batch_exact [OF vs this] held show "\<not> vset_wf (on_votes_verified [(1, v, 1)] vs)" by auto
qed

text \<open>The ways votes enter and leave a vote set.\<close>

inductive vset_reachable :: "vote_set \<Rightarrow> bool" where
  vreach_new: "vset_reachable (vset_new E h n)"
| vreach_header: "vset_reachable vs \<Longrightarrow> vset_reachable (set_header E h vs)"
| vreach_buffer: "vset_reachable vs \<Longrightarrow> i < length (seen_validators vs) \<Longrightarrow>
    vset_reachable (fst (buffer_unverified_vote i v k p vs))"
| vreach_own: "vset_reachable vs \<Longrightarrow> i < length (seen_validators vs) \<Longrightarrow>
    vset_reachable (fst (add_verified_vote i v p vs))"
| vreach_take: "vset_reachable vs \<Longrightarrow> vset_reachable (fst (take_unverified_votes vs))"
| vreach_qc: "vset_reachable vs \<Longrightarrow> vset_reachable (on_qc_built vs)"

text \<open>
  C9: a validator's vote counts once: in every vote set filled with own and buffered votes the
  power counters are the sums over the held votes, each from a different committee member, and
  a second vote of a member changes nothing.
\<close>

theorem one_vote_per_member:
  assumes "vset_reachable vs"
  shows "vset_wf vs
    \<and> (i \<in> set (held_indices vs) \<longrightarrow>
         buffer_unverified_vote i v k p vs = (vs, False) \<and> add_verified_vote i v p vs = (vs, False))"
proof -
  have "vset_wf vs"
    using assms by (induction rule: vset_reachable.induct)
      (simp_all add: vset_wf_new vset_wf_set_header vset_wf_buffer vset_wf_add_verified vset_wf_take vset_wf_on_qc_built)
  then show ?thesis using duplicate_vote_ignored by blast
qed

theorem one_vote_per_member_witness: "\<forall>E v. vset_wf (fst (add_verified_vote 1 v 1 (vset_new E None 4)))"
proof (intro allI)
  fix E v
  have "vset_reachable (fst (add_verified_vote 1 v 1 (vset_new E None 4)))"
    by (rule vreach_own [OF vreach_new]) (simp add: vset_new_def)
  from one_vote_per_member [OF this] show "vset_wf (fst (add_verified_vote 1 v 1 (vset_new E None 4)))" by blast
qed

end
