(* ===== verification/Pending_Block.thy ===== *)
theory Pending_Block
  imports Blocks
begin

text \<open>
  \<open>PendingBlock\<close> of \<open>crates/bft/src/pending.rs\<close>: a block assembled from a gossiped header, the
  transaction and certificate hashes that came with it, and the bodies as they arrive.
\<close>

record pending_block =
  pb_header :: block_header
  retry_order :: "hash list"
  priority_order :: "hash list"
  other_order :: "hash list"
  original_cert_order :: "hash list"
  received_transactions :: "(hash, routable_transaction) hmap"
  missing_transaction_hashes :: "hash hset"
  received_certificates :: "(hash, transaction_certificate) hmap"
  missing_certificate_hashes :: "hash hset"
  pb_deferred :: "transaction_defer list"
  pb_aborted :: "transaction_abort list"
  pb_commitment_proofs :: "(hash, commitment_proof) hmap"
  constructed_block :: "block option"

definition with_proofs :: "block_header \<Rightarrow> hash list \<Rightarrow> hash list \<Rightarrow> hash list \<Rightarrow> hash list
    \<Rightarrow> transaction_defer list \<Rightarrow> transaction_abort list \<Rightarrow> (hash, commitment_proof) hmap
    \<Rightarrow> pending_block" where
  "with_proofs header retry_hashes priority_hashes transaction_hashes certificate_hashes deferred
      aborted proofs =
     \<lparr>pb_header = header, retry_order = retry_hashes, priority_order = priority_hashes,
      other_order = transaction_hashes, original_cert_order = certificate_hashes,
      received_transactions = hm_empty,
      missing_transaction_hashes = hs_collect (retry_hashes @ priority_hashes @ transaction_hashes),
      received_certificates = hm_empty,
      missing_certificate_hashes = hs_collect certificate_hashes,
      pb_deferred = deferred, pb_aborted = aborted, pb_commitment_proofs = proofs,
      constructed_block = None\<rparr>"

definition pb_full :: "block_header \<Rightarrow> hash list \<Rightarrow> hash list \<Rightarrow> hash list \<Rightarrow> hash list
    \<Rightarrow> transaction_defer list \<Rightarrow> transaction_abort list \<Rightarrow> pending_block" where
  "pb_full header retry_hashes priority_hashes transaction_hashes certificate_hashes deferred aborted =
     with_proofs header retry_hashes priority_hashes transaction_hashes certificate_hashes deferred
       aborted hm_empty"

definition pb_new :: "block_header \<Rightarrow> hash list \<Rightarrow> hash list \<Rightarrow> hash list \<Rightarrow> hash list \<Rightarrow> pending_block" where
  "pb_new header retry_hashes priority_hashes transaction_hashes certificate_hashes =
     pb_full header retry_hashes priority_hashes transaction_hashes certificate_hashes [] []"

definition add_transaction :: "routable_transaction \<Rightarrow> pending_block \<Rightarrow> pending_block \<times> bool" where
  "add_transaction tx p =
     (let h = tx_hash tx in
      if hm_contains (missing_transaction_hashes p) h
      then (p\<lparr>missing_transaction_hashes := hm_remove h (missing_transaction_hashes p),
              received_transactions := hm_insert h tx (received_transactions p)\<rparr>, True)
      else (p, False))"

definition add_certificate :: "transaction_certificate \<Rightarrow> pending_block \<Rightarrow> pending_block \<times> bool" where
  "add_certificate cert p =
     (let h = tc_transaction_hash cert in
      if hm_contains (missing_certificate_hashes p) h
      then (p\<lparr>missing_certificate_hashes := hm_remove h (missing_certificate_hashes p),
              received_certificates := hm_insert h cert (received_certificates p)\<rparr>, True)
      else (p, False))"

definition is_complete :: "pending_block \<Rightarrow> bool" where
  "is_complete p \<longleftrightarrow> hm_len (missing_transaction_hashes p) = 0 \<and> hm_len (missing_certificate_hashes p) = 0"

definition missing_transaction_count :: "pending_block \<Rightarrow> usize" where
  "missing_transaction_count p = hm_len (missing_transaction_hashes p)"

definition missing_transactions :: "pending_block \<Rightarrow> hash list" where
  "missing_transactions p = hm_keys (missing_transaction_hashes p)"

definition needs_transaction :: "pending_block \<Rightarrow> hash \<Rightarrow> bool" where
  "needs_transaction p h \<longleftrightarrow> hm_contains (missing_transaction_hashes p) h"

definition missing_certificate_count :: "pending_block \<Rightarrow> usize" where
  "missing_certificate_count p = hm_len (missing_certificate_hashes p)"

definition missing_certificates :: "pending_block \<Rightarrow> hash list" where
  "missing_certificates p = hm_keys (missing_certificate_hashes p)"

text \<open>\<open>order.iter().filter_map(|h| map.remove(h)).collect()\<close>: the values in order, and the rest.\<close>

fun remove_in_order :: "hash list \<Rightarrow> (hash, 'v) hmap \<Rightarrow> 'v list \<times> (hash, 'v) hmap" where
  "remove_in_order [] m = ([], m)"
| "remove_in_order (h # hs) m =
     (case hm_get m h of
        None \<Rightarrow> remove_in_order hs m
      | Some v \<Rightarrow> (let (vs, m') = remove_in_order hs (hm_remove h m) in (v # vs, m')))"

datatype pending_error = Cannot_construct usize usize

definition construct_block :: "pending_block \<Rightarrow> pending_block \<times> (pending_error + block)" where
  "construct_block p =
     (if \<not> is_complete p
      then (p, Inl (Cannot_construct (hm_len (missing_transaction_hashes p))
                      (hm_len (missing_certificate_hashes p))))
      else case constructed_block p of
        Some b \<Rightarrow> (p, Inr b)
      | None \<Rightarrow>
          let (retries, m1) = remove_in_order (retry_order p) (received_transactions p);
              (priority, m2) = remove_in_order (priority_order p) m1;
              (others, m3) = remove_in_order (other_order p) m2;
              (certs, c1) = remove_in_order (original_cert_order p) (received_certificates p);
              b = \<lparr>bl_header = pb_header p, bl_retry_transactions = retries,
                   bl_priority_transactions = priority, bl_transactions = others,
                   bl_certificates = certs, bl_deferred = pb_deferred p, bl_aborted = pb_aborted p,
                   bl_commitment_proofs = pb_commitment_proofs p\<rparr>
          in (p\<lparr>received_transactions := m3, received_certificates := c1, pb_deferred := [],
                pb_aborted := [], pb_commitment_proofs := hm_empty, constructed_block := Some b\<rparr>, Inr b))"

definition pb_all_transaction_hashes :: "pending_block \<Rightarrow> hash list" where
  "pb_all_transaction_hashes p = retry_order p @ priority_order p @ other_order p"

definition pb_all_certificate_hashes :: "pending_block \<Rightarrow> hash list" where
  "pb_all_certificate_hashes p = original_cert_order p"

section \<open>The invariant\<close>

text \<open>
  While the block is not constructed, every listed hash is either still missing or received
  under its own hash; a constructed block carries the pending header.
\<close>

definition pb_wf :: "pending_block \<Rightarrow> bool" where
  "pb_wf p \<longleftrightarrow>
     (\<forall>h tx. hm_get (received_transactions p) h = Some tx \<longrightarrow> tx_hash tx = h)
     \<and> (\<forall>h c. hm_get (received_certificates p) h = Some c \<longrightarrow> tc_transaction_hash c = h)
     \<and> (constructed_block p = None \<longrightarrow>
          (\<forall>h \<in> set (pb_all_transaction_hashes p).
             hm_contains (missing_transaction_hashes p) h \<or> hm_contains (received_transactions p) h)
        \<and> (\<forall>h \<in> set (original_cert_order p).
             hm_contains (missing_certificate_hashes p) h \<or> hm_contains (received_certificates p) h))
     \<and> (\<forall>b. constructed_block p = Some b \<longrightarrow> bl_header b = pb_header p)"

lemma pb_wf_with_proofs: "pb_wf (with_proofs h r q t c d a ps)"
  by (auto simp: pb_wf_def with_proofs_def pb_all_transaction_hashes_def)

lemma pb_wf_add_transaction: "pb_wf p \<Longrightarrow> pb_wf (fst (add_transaction tx p))"
  by (auto simp: pb_wf_def add_transaction_def Let_def pb_all_transaction_hashes_def hm_get_insert
      split: if_splits)

lemma pb_wf_add_certificate: "pb_wf p \<Longrightarrow> pb_wf (fst (add_certificate c p))"
  by (auto simp: pb_wf_def add_certificate_def Let_def pb_all_transaction_hashes_def hm_get_insert
      split: if_splits)

lemma remove_in_order_rest:
  "hm_get (snd (remove_in_order hs m)) k = (if k \<in> set hs then None else hm_get m k)"
  by (induction hs m rule: remove_in_order.induct) (auto split: option.splits prod.splits)

lemma remove_in_order_values:
  "v \<in> set (fst (remove_in_order hs m)) \<Longrightarrow> \<exists>h \<in> set hs. hm_get m h = Some v"
  by (induction hs m rule: remove_in_order.induct)
    (force split: option.splits prod.splits if_splits)+

lemma remove_in_order_keys:
  assumes "distinct hs" "\<forall>h \<in> set hs. hm_contains m h"
    and "\<forall>h v. hm_get m h = Some v \<longrightarrow> key v = h"
  shows "map key (fst (remove_in_order hs m)) = hs"
  using assms
proof (induction hs m rule: remove_in_order.induct)
  case (2 h hs m)
  then obtain v where v: "hm_get m h = Some v" by (auto simp: hm_contains_def)
  have "map key (fst (remove_in_order hs (hm_remove h m))) = hs"
    using "2.prems" v by (intro "2.IH") auto
  then show ?case using v "2.prems"(3) by (simp add: split_beta)
qed simp

lemma construct_block_fresh:
  assumes "is_complete p" "constructed_block p = None"
  defines "m1 \<equiv> snd (remove_in_order (retry_order p) (received_transactions p))"
  defines "m2 \<equiv> snd (remove_in_order (priority_order p) m1)"
  defines "b \<equiv> \<lparr>bl_header = pb_header p,
      bl_retry_transactions = fst (remove_in_order (retry_order p) (received_transactions p)),
      bl_priority_transactions = fst (remove_in_order (priority_order p) m1),
      bl_transactions = fst (remove_in_order (other_order p) m2),
      bl_certificates = fst (remove_in_order (original_cert_order p) (received_certificates p)),
      bl_deferred = pb_deferred p, bl_aborted = pb_aborted p,
      bl_commitment_proofs = pb_commitment_proofs p\<rparr>"
  shows "construct_block p =
     (p\<lparr>received_transactions := snd (remove_in_order (other_order p) m2),
        received_certificates := snd (remove_in_order (original_cert_order p) (received_certificates p)),
        pb_deferred := [], pb_aborted := [], pb_commitment_proofs := hm_empty,
        constructed_block := Some b\<rparr>, Inr b)"
  using assms(1,2) unfolding construct_block_def Let_def split_beta b_def m2_def m1_def by simp

lemma construct_block_cases:
  obtains "\<not> is_complete p" "construct_block p = (p, Inl (Cannot_construct (hm_len (missing_transaction_hashes p))
                      (hm_len (missing_certificate_hashes p))))"
  | b where "is_complete p" "constructed_block p = Some b" "construct_block p = (p, Inr b)"
  | "is_complete p" "constructed_block p = None"
  by (cases "is_complete p"; cases "constructed_block p") (auto simp: construct_block_def)

lemma pb_wf_construct:
  assumes "pb_wf p"
  shows "pb_wf (fst (construct_block p))"
proof (cases rule: construct_block_cases [of p])
  case 3
  show ?thesis
    using assms unfolding construct_block_fresh [OF 3] pb_wf_def
    by (simp add: remove_in_order_rest)
qed (use assms in simp_all)

section \<open>Assembly is faithful\<close>

text \<open>
  A complete pending block with pairwise distinct hashes yields a block with exactly the
  gossiped header and, section by section, the gossiped hashes in their order.
\<close>

lemma construct_block_sections:
  assumes "pb_wf p" "is_complete p" "constructed_block p = None"
    and "distinct (pb_all_transaction_hashes p)" "distinct (original_cert_order p)"
  obtains p' b where "construct_block p = (p', Inr b)" "constructed_block p' = Some b"
    "bl_header b = pb_header p"
    "map tx_hash (bl_retry_transactions b) = retry_order p"
    "map tx_hash (bl_priority_transactions b) = priority_order p"
    "map tx_hash (bl_transactions b) = other_order p"
    "map tc_transaction_hash (bl_certificates b) = original_cert_order p"
    "bl_deferred b = pb_deferred p" "bl_aborted b = pb_aborted p"
proof -
  have none: "hm_get (missing_transaction_hashes p) h = None" "hm_get (missing_certificate_hashes p) h = None" for h
    using assms(2) by (auto simp: is_complete_def hm_no_entries)
  have rx: "\<And>h. h \<in> set (pb_all_transaction_hashes p) \<Longrightarrow> hm_contains (received_transactions p) h"
    and rc: "\<And>h. h \<in> set (original_cert_order p) \<Longrightarrow> hm_contains (received_certificates p) h"
    using assms(1,3) none by (auto simp: pb_wf_def hm_contains_def)
  have kt: "\<forall>h v. hm_get (received_transactions p) h = Some v \<longrightarrow> tx_hash v = h"
    and kc: "\<forall>h v. hm_get (received_certificates p) h = Some v \<longrightarrow> tc_transaction_hash v = h"
    using assms(1) by (auto simp: pb_wf_def)
  define m1 where "m1 = snd (remove_in_order (retry_order p) (received_transactions p))"
  define m2 where "m2 = snd (remove_in_order (priority_order p) m1)"
  have m1: "\<And>h. hm_get m1 h = (if h \<in> set (retry_order p) then None else hm_get (received_transactions p) h)"
    and m2: "\<And>h. hm_get m2 h = (if h \<in> set (priority_order p) then None else hm_get m1 h)"
    by (simp_all add: m1_def m2_def remove_in_order_rest)
  have r: "map tx_hash (fst (remove_in_order (retry_order p) (received_transactions p))) = retry_order p"
    using assms(4) rx kt by (intro remove_in_order_keys) (auto simp: pb_all_transaction_hashes_def)
  have q: "map tx_hash (fst (remove_in_order (priority_order p) m1)) = priority_order p"
    using assms(4) rx kt m1
    by (intro remove_in_order_keys) (auto simp: pb_all_transaction_hashes_def hm_contains_def)
  have t: "map tx_hash (fst (remove_in_order (other_order p) m2)) = other_order p"
    using assms(4) rx kt m1 m2
    by (intro remove_in_order_keys) (auto simp: pb_all_transaction_hashes_def hm_contains_def)
  have c: "map tc_transaction_hash (fst (remove_in_order (original_cert_order p) (received_certificates p)))
      = original_cert_order p"
    using assms(5) rc kc by (intro remove_in_order_keys) auto
  note eq = construct_block_fresh [OF assms(2,3), folded m1_def, folded m2_def]
  show ?thesis by (rule that, rule eq) (simp_all add: r q t c)
qed

text \<open>Adding bodies shrinks what is missing, by exactly the hash that arrived.\<close>

lemma add_transaction_progress:
  "needs_transaction p (tx_hash tx) \<Longrightarrow>
   missing_transaction_count (fst (add_transaction tx p)) < missing_transaction_count p"
  by (auto simp: needs_transaction_def missing_transaction_count_def add_transaction_def Let_def
      hm_contains_def hm_len_remove_less)

section \<open>Properties\<close>

text \<open>
  C8: a complete pending block whose hashes are pairwise distinct is assembled into the block
  that was gossiped: its header, its transactions section by section in the gossiped order, its
  certificates, deferrals and aborts.
\<close>

theorem assembled_as_gossiped:
  assumes "pb_wf p" "is_complete p" "constructed_block p = None"
    and "distinct (pb_all_transaction_hashes p)" "distinct (original_cert_order p)"
  shows "\<exists>p' b. construct_block p = (p', Inr b) \<and> constructed_block p' = Some b \<and> bl_header b = pb_header p
    \<and> map tx_hash (bl_retry_transactions b) = retry_order p
    \<and> map tx_hash (bl_priority_transactions b) = priority_order p
    \<and> map tx_hash (bl_transactions b) = other_order p
    \<and> map tc_transaction_hash (bl_certificates b) = original_cert_order p
    \<and> bl_deferred b = pb_deferred p \<and> bl_aborted b = pb_aborted p"
  using construct_block_sections [OF assms] by metis

theorem assembled_as_gossiped_witness:
  "\<forall>h. \<exists>p b. construct_block (fst (add_transaction (tx_new (\<lambda>_. 5) id [1] [] []) (pb_new h [] [] [5] []))) = (p, Inr b)
     \<and> map tx_hash (bl_transactions b) = [5]"
proof
  fix h
  let ?p = "fst (add_transaction (tx_new (\<lambda>_. 5) id [1] [] []) (pb_new h [] [] [5] []))"
  have h5: "tx_hash (tx_new (\<lambda>_. 5) id [1] [] []) = 5" by (simp add: tx_new_def tx_new_internal_def Let_def)
  have "pb_wf ?p" unfolding pb_new_def pb_full_def by (intro pb_wf_add_transaction pb_wf_with_proofs)
  moreover have "is_complete ?p" "constructed_block ?p = None" "distinct (pb_all_transaction_hashes ?p)"
      "distinct (original_cert_order ?p)" "other_order ?p = [5]"
    by (simp_all add: h5 add_transaction_def pb_new_def pb_full_def with_proofs_def is_complete_def
        pb_all_transaction_hashes_def Let_def hs_collect_def hm_contains_def hm_no_entries)
  ultimately show "\<exists>p b. construct_block ?p = (p, Inr b) \<and> map tx_hash (bl_transactions b) = [5]"
    using assembled_as_gossiped [of ?p] by metis
qed

end
