(* ===== verification/Bft_Core.thy ===== *)
theory Bft_Core
  imports Vote_Set Pending_Block
begin

text \<open>
  The state of the consensus machine (\<open>BftState\<close> in \<open>crates/bft/src/state.rs\<close>), its
  configuration (\<open>crates/bft/src/config.rs\<close>), the actions it emits (\<open>crates/core/src/action.rs\<close>,
  the constructors consensus uses) and the operations the handlers share: lookups, timeouts,
  vote creation, unlocking and cleanup.

  A handler takes the state and its inputs and returns the new state with the list of
  actions.  Log output is not modelled.
\<close>

section \<open>Configuration\<close>

record bft_config =
  cfg_proposal_interval :: duration
  cfg_view_change_timeout :: duration
  cfg_view_change_timeout_increment :: duration
  cfg_view_change_timeout_max :: "duration option"
  cfg_max_transactions_per_block :: usize
  cfg_max_certificates_per_block :: usize
  cfg_max_timestamp_delay_ms :: u64
  cfg_max_timestamp_rush_ms :: u64
  cfg_transaction_fetch_timeout :: duration
  cfg_certificate_fetch_timeout :: duration
  cfg_cleanup_interval :: duration
  cfg_min_block_interval :: duration

definition bft_config_default :: bft_config where
  "bft_config_default =
     \<lparr>cfg_proposal_interval = from_millis 300, cfg_view_change_timeout = from_millis 3000,
      cfg_view_change_timeout_increment = from_millis 500,
      cfg_view_change_timeout_max = Some (from_millis 30000),
      cfg_max_transactions_per_block = 1024, cfg_max_certificates_per_block = 4096,
      cfg_max_timestamp_delay_ms = 30000, cfg_max_timestamp_rush_ms = 2000,
      cfg_transaction_fetch_timeout = from_millis 50, cfg_certificate_fetch_timeout = from_millis 500,
      cfg_cleanup_interval = from_millis 1000, cfg_min_block_interval = from_millis 150\<rparr>"

section \<open>Actions\<close>

datatype timer_id = Proposal_timer | Cleanup_timer | GlobalConsensus_timer

record block_header_gossip =
  go_header :: block_header
  go_retry_hashes :: "hash list"
  go_priority_hashes :: "hash list"
  go_transaction_hashes :: "hash list"
  go_certificate_hashes :: "hash list"
  go_deferred :: "transaction_defer list"
  go_aborted :: "transaction_abort list"
  go_commitment_proofs :: "(hash, commitment_proof) hmap"

definition gossip_full :: "block_header \<Rightarrow> hash list \<Rightarrow> hash list \<Rightarrow> hash list \<Rightarrow> hash list
    \<Rightarrow> transaction_defer list \<Rightarrow> transaction_abort list \<Rightarrow> (hash, commitment_proof) hmap
    \<Rightarrow> block_header_gossip" where
  "gossip_full h r p t c d a ps =
     \<lparr>go_header = h, go_retry_hashes = r, go_priority_hashes = p, go_transaction_hashes = t,
      go_certificate_hashes = c, go_deferred = d, go_aborted = a, go_commitment_proofs = ps\<rparr>"

definition gossip_new :: "block_header \<Rightarrow> hash list \<Rightarrow> hash list \<Rightarrow> hash list \<Rightarrow> block_header_gossip" where
  "gossip_new h r p t = gossip_full h r p t [] [] [] hm_empty"

record build_proposal =
  bp_proposer :: validator_id
  bp_height :: block_height
  bp_round :: u64
  bp_parent_hash :: hash
  bp_parent_qc :: quorum_certificate
  bp_timestamp :: u64
  bp_is_fallback :: bool
  bp_parent_state_root :: hash
  bp_parent_state_version :: u64
  bp_retry_transactions :: "routable_transaction list"
  bp_priority_transactions :: "routable_transaction list"
  bp_transactions :: "routable_transaction list"
  bp_certificates :: "transaction_certificate list"
  bp_commitment_proofs :: "(hash, commitment_proof) hmap"
  bp_deferred :: "transaction_defer list"
  bp_aborted :: "transaction_abort list"

text \<open>The internal events that consensus enqueues.\<close>

datatype internal_event =
    QuorumCertificateFormed hash quorum_certificate
  | BlockReadyToCommit hash quorum_certificate
  | BlockCommitted hash u64 block

datatype outbound_message =
    Msg_BlockHeader block_header_gossip
  | Msg_BlockVote block_vote

datatype action =
    BroadcastToShard shard_group_id outbound_message
  | SetTimer timer_id duration
  | EnqueueInternal internal_event
  | VerifyAndBuildQuorumCertificate hash block_height u64 hash bytes "unverified_vote list"
      "verified_vote list" u64
  | VerifyQcSignature quorum_certificate "public_key list" hash bytes
  | VerifyCycleProof hash usize cycle_proof "public_key list" bytes u64
  | VerifyStateRoot hash hash hash "transaction_certificate list"
  | VerifyTransactionRoot hash hash "routable_transaction list" "routable_transaction list"
      "routable_transaction list"
  | BuildProposal build_proposal
  | EmitCommittedBlock block
  | PersistBlock block quorum_certificate
  | PersistAndBroadcastVote block_height u64 hash shard_group_id outbound_message
  | FetchChainMetadata
  | StartSync u64 hash
  | FetchTransactions hash validator_id "hash list"
  | FetchCertificates hash validator_id "hash list"
  | CancelFetch hash

text \<open>
  \<open>actions.extend(self.f(..))\<close>: run the next part on the state reached and append its actions.
\<close>

definition then_do :: "'s \<times> 'a list \<Rightarrow> ('s \<Rightarrow> 's \<times> 'a list) \<Rightarrow> 's \<times> 'a list" where
  "then_do r f = (let (s1, a1) = r; (s2, a2) = f s1 in (s2, a1 @ a2))"

text \<open>The blocks a list of actions hands to the execution layer, in order.\<close>

fun committed_blocks :: "action list \<Rightarrow> block list" where
  "committed_blocks [] = []"
| "committed_blocks (EmitCommittedBlock b # acts) = b # committed_blocks acts"
| "committed_blocks (_ # acts) = committed_blocks acts"

section \<open>The state\<close>

record pending_synced =
  ps_block :: block
  ps_qc :: quorum_certificate
  ps_verified :: bool

record pending_cycle_proofs =
  pcp_total :: usize
  pcp_verified :: usize
  pcp_all_valid :: bool

record pending_state_root =
  psr_required_root :: hash
  psr_expected_root :: hash
  psr_certificates :: "transaction_certificate list"

record pending_proposal =
  pp_height :: block_height
  pp_round :: u64

record bft_state =
  node_index :: u32
  signing_key :: bytes
  topology :: topology
  shard_group :: shard_group_id
  view :: u64
  view_at_height_start :: u64
  committed_height :: u64
  committed_hash :: hash
  latest_qc :: "quorum_certificate option"
  genesis_block :: "block option"
  pending_blocks :: "(hash, pending_block) hmap"
  pending_block_created_at :: "(hash, duration) hmap"
  vote_sets :: "(hash, vote_set) hmap"
  voted_heights :: "(u64, hash \<times> u64) hmap"
  received_votes_by_height :: "(u64 \<times> validator_id, hash \<times> u64) hmap"
  certified_blocks :: "(hash, block \<times> quorum_certificate) hmap"
  pending_qc_verifications :: "(hash, block_header) hmap"
  pending_synced_block_verifications :: "(hash, pending_synced) hmap"
  pending_cycle_proof_verifications :: "(hash, pending_cycle_proofs) hmap"
  state_root_verifications_in_flight :: "hash hset"
  pending_state_root_verifications :: "(hash, pending_state_root) hmap"
  last_committed_jmt_state :: "u64 \<times> hash"
  last_chain_committed_state_version :: u64
  verified_state_roots :: "hash hset"
  verified_transaction_roots :: "hash hset"
  transaction_root_verifications_in_flight :: "hash hset"
  verified_cycle_proofs :: "hash hset"
  verified_qcs :: "(hash, u64) hmap"
  buffered_synced_blocks :: "(u64, block \<times> quorum_certificate) hmap"
  pending_commits :: "(u64, hash \<times> quorum_certificate) hmap"
  pending_commits_awaiting_data :: "(hash, u64 \<times> quorum_certificate) hmap"
  pending_proposal_opt :: "pending_proposal option"
  config :: bft_config
  now :: duration
  last_proposal_time :: duration
  last_leader_activity :: duration
  last_header_reset :: "(u64 \<times> u64) option"
  syncing :: bool
  view_changes :: u64

record recovered_state =
  rec_voted_heights :: "(u64, hash \<times> u64) hmap"
  rec_committed_height :: u64
  rec_committed_hash :: "hash option"
  rec_latest_qc :: "quorum_certificate option"
  rec_jmt_state :: "(u64 \<times> hash) option"

definition recovered_default :: recovered_state where
  "recovered_default = \<lparr>rec_voted_heights = hm_empty, rec_committed_height = 0,
     rec_committed_hash = None, rec_latest_qc = None, rec_jmt_state = None\<rparr>"

definition bft_new :: "crypto_env \<Rightarrow> u32 \<Rightarrow> bytes \<Rightarrow> topology \<Rightarrow> bft_config \<Rightarrow> recovered_state \<Rightarrow> bft_state" where
  "bft_new E index key T cfg recovered =
     \<lparr>node_index = index, signing_key = key, topology = T, shard_group = local_shard T,
      view = 0, view_at_height_start = 0,
      committed_height = rec_committed_height recovered,
      committed_hash = (case rec_committed_hash recovered of Some h \<Rightarrow> h
                        | None \<Rightarrow> env_blake3 E (replicate 32 0)),
      latest_qc = rec_latest_qc recovered, genesis_block = None,
      pending_blocks = hm_empty, pending_block_created_at = hm_empty, vote_sets = hm_empty,
      voted_heights = hm_retain (\<lambda>h _. h > rec_committed_height recovered) (rec_voted_heights recovered),
      received_votes_by_height = hm_empty, certified_blocks = hm_empty,
      pending_qc_verifications = hm_empty, pending_synced_block_verifications = hm_empty,
      pending_cycle_proof_verifications = hm_empty, state_root_verifications_in_flight = hm_empty,
      pending_state_root_verifications = hm_empty,
      last_committed_jmt_state = (case rec_jmt_state recovered of Some j \<Rightarrow> j | None \<Rightarrow> (0, Hash_ZERO)),
      last_chain_committed_state_version =
        (case rec_jmt_state recovered of Some (v, _) \<Rightarrow> v | None \<Rightarrow> 0),
      verified_state_roots = hm_empty, verified_transaction_roots = hm_empty,
      transaction_root_verifications_in_flight = hm_empty, verified_cycle_proofs = hm_empty,
      verified_qcs = hm_empty, buffered_synced_blocks = hm_empty, pending_commits = hm_empty,
      pending_commits_awaiting_data = hm_empty, pending_proposal_opt = None, config = cfg,
      now = 0, last_proposal_time = 0, last_leader_activity = 0, last_header_reset = None,
      syncing = False, view_changes = 0\<rparr>"

section \<open>Accessors and lookups\<close>

abbreviation validator_id_of :: "bft_state \<Rightarrow> validator_id" where
  "validator_id_of s \<equiv> local_validator_id (topology s)"

definition total_voting_power :: "bft_state \<Rightarrow> u64" where
  "total_voting_power s = local_voting_power (topology s)"

definition voting_power_of :: "bft_state \<Rightarrow> validator_id \<Rightarrow> u64" where
  "voting_power_of s v = (case voting_power (topology s) v of Some p \<Rightarrow> p | None \<Rightarrow> 0)"

definition get_block_by_hash :: "crypto_env \<Rightarrow> bft_state \<Rightarrow> hash \<Rightarrow> block option" where
  "get_block_by_hash E s h =
     (case hm_get (certified_blocks s) h of
        Some (b, _) \<Rightarrow> Some b
      | None \<Rightarrow>
         (case (case hm_get (pending_blocks s) h of Some p \<Rightarrow> constructed_block p | None \<Rightarrow> None) of
            Some b \<Rightarrow> Some b
          | None \<Rightarrow>
             (case genesis_block s of
                Some g \<Rightarrow> if block_hash E g = h then Some g else None
              | None \<Rightarrow> None)))"

text \<open>
  The lookup that \<open>on_qc_formed\<close>, \<open>on_block_ready_to_commit\<close> and \<open>commit_block_and_buffered\<close>
  share: a pending entry decides, also when its block is not constructed yet.
\<close>

definition commit_lookup :: "bft_state \<Rightarrow> hash \<Rightarrow> block option" where
  "commit_lookup s h =
     (case hm_get (pending_blocks s) h of
        Some p \<Rightarrow> constructed_block p
      | None \<Rightarrow> map_option fst (hm_get (certified_blocks s) h))"

definition parent_state :: "crypto_env \<Rightarrow> bft_state \<Rightarrow> hash \<Rightarrow> hash \<times> u64" where
  "parent_state E s parent_hash =
     (case get_block_by_hash E s parent_hash of
        Some b \<Rightarrow> (hd_state_root (bl_header b), hd_state_version (bl_header b))
      | None \<Rightarrow> (snd (last_committed_jmt_state s), fst (last_committed_jmt_state s)))"

definition next_proposal_height :: "bft_state \<Rightarrow> u64" where
  "next_proposal_height s =
     (case latest_qc s of Some qc \<Rightarrow> qc_height qc + 1 | None \<Rightarrow> committed_height s + 1)"

definition proposal_parent :: "bft_state \<Rightarrow> hash \<times> quorum_certificate" where
  "proposal_parent s =
     (case latest_qc s of Some qc \<Rightarrow> (qc_block_hash qc, qc) | None \<Rightarrow> (committed_hash s, qc_genesis))"

definition newer_qc :: "bft_state \<Rightarrow> quorum_certificate \<Rightarrow> bool" where
  "newer_qc s qc = (case latest_qc s of None \<Rightarrow> True | Some existing \<Rightarrow> qc_height qc > qc_height existing)"

definition is_current_proposer :: "bft_state \<Rightarrow> bool" where
  "is_current_proposer s \<longleftrightarrow> should_propose (topology s) (next_proposal_height s) (view s)"

definition will_propose_next :: "bft_state \<Rightarrow> bool" where
  "will_propose_next s \<longleftrightarrow> should_propose (topology s) (next_proposal_height s) (view s)
     \<and> \<not> hm_contains (voted_heights s) (next_proposal_height s)"

definition has_complete_block_at_height :: "bft_state \<Rightarrow> u64 \<Rightarrow> bool" where
  "has_complete_block_at_height s height \<longleftrightarrow>
     height \<le> committed_height s
     \<or> list_ex (\<lambda>p. hd_height (pb_header p) = height \<and> is_complete p \<and> constructed_block p \<noteq> None)
         (hm_values (pending_blocks s))
     \<or> list_ex (\<lambda>(b, _). bl_height b = height) (hm_values (certified_blocks s))
     \<or> list_ex (\<lambda>p. bl_height (ps_block p) = height) (hm_values (pending_synced_block_verifications s))
     \<or> hm_contains (buffered_synced_blocks s) height"

section \<open>Time, sync flag, timeouts\<close>

definition set_time :: "duration \<Rightarrow> bft_state \<Rightarrow> bft_state" where
  "set_time t s = s\<lparr>now := t\<rparr>"

definition set_syncing :: "bool \<Rightarrow> bft_state \<Rightarrow> bft_state" where
  "set_syncing b s =
     (let s1 = (if \<not> b \<and> syncing s then s\<lparr>last_leader_activity := now s\<rparr> else s) in
      s1\<lparr>syncing := b\<rparr>)"

definition start_sync :: "u64 \<Rightarrow> hash \<Rightarrow> bft_state \<Rightarrow> bft_state \<times> action list" where
  "start_sync target_height target_hash s =
     (if syncing s then (s, []) else (set_syncing True s, [StartSync target_height target_hash]))"

definition record_leader_activity :: "bft_state \<Rightarrow> bft_state" where
  "record_leader_activity s = s\<lparr>last_leader_activity := now s\<rparr>"

definition record_header_activity :: "u64 \<Rightarrow> u64 \<Rightarrow> bft_state \<Rightarrow> bft_state" where
  "record_header_activity height round s =
     (if last_header_reset s \<noteq> Some (height, round)
      then s\<lparr>last_leader_activity := now s, last_header_reset := Some (height, round)\<rparr> else s)"

definition current_view_change_timeout :: "bft_state \<Rightarrow> duration" where
  "current_view_change_timeout s =
     (let base = cfg_view_change_timeout (config s);
          increment = cfg_view_change_timeout_increment (config s);
          rounds_at_height = saturating_sub (view s) (view_at_height_start s);
          timeout = base + increment * unat (ucast rounds_at_height :: u32)
      in case cfg_view_change_timeout_max (config s) of
           Some m \<Rightarrow> min timeout m
         | None \<Rightarrow> timeout)"

definition should_advance_round :: "bft_state \<Rightarrow> bool" where
  "should_advance_round s \<longleftrightarrow> now s - last_leader_activity s \<ge> current_view_change_timeout s"

section \<open>Unlocking and cleanup\<close>

definition maybe_unlock_for_qc :: "quorum_certificate \<Rightarrow> bft_state \<Rightarrow> bft_state" where
  "maybe_unlock_for_qc qc s =
     (if qc_is_genesis qc then s
      else
        let s1 = (if qc_round qc > view s then s\<lparr>view := qc_round qc\<rparr> else s) in
        s1\<lparr>voted_heights := fold hm_remove
             (filter (\<lambda>h. h \<le> qc_height qc) (hm_keys (voted_heights s1))) (voted_heights s1)\<rparr>)"

definition adopt_qc :: "quorum_certificate \<Rightarrow> bft_state \<Rightarrow> bft_state" where
  "adopt_qc qc s = (if newer_qc s qc then maybe_unlock_for_qc qc (s\<lparr>latest_qc := Some qc\<rparr>) else s)"

definition clear_vote_tracking_for_height :: "u64 \<Rightarrow> u64 \<Rightarrow> bft_state \<Rightarrow> bft_state \<times> usize" where
  "clear_vote_tracking_for_height height new_round s =
     (s\<lparr>received_votes_by_height := hm_retain (\<lambda>(h, _) _. h \<noteq> height) (received_votes_by_height s),
        vote_sets := hm_retain (\<lambda>_ vs.
          (case vset_height vs of None \<Rightarrow> True | Some h \<Rightarrow> h \<noteq> height)
          \<or> (case vset_round vs of None \<Rightarrow> True | Some r \<Rightarrow> r \<ge> new_round)) (vote_sets s)\<rparr>,
      length (filter (\<lambda>(h, _). h = height) (hm_keys (received_votes_by_height s))))"

definition cleanup_old_state :: "u64 \<Rightarrow> bft_state \<Rightarrow> bft_state \<times> hash list" where
  "cleanup_old_state ch s =
     (let removed = map fst (filter (\<lambda>(_, p). hd_height (pb_header p) \<le> ch) (hm_entries (pending_blocks s)));
          pbs = hm_retain (\<lambda>_ p. hd_height (pb_header p) > ch) (pending_blocks s);
          live = (\<lambda>h. hm_contains pbs h)
      in (s\<lparr>pending_blocks := pbs,
            pending_block_created_at := hm_retain (\<lambda>h _. live h) (pending_block_created_at s),
            vote_sets := hm_retain (\<lambda>_ vs. case vset_height vs of None \<Rightarrow> True | Some h \<Rightarrow> h > ch) (vote_sets s),
            voted_heights := hm_retain (\<lambda>h _. h > ch) (voted_heights s),
            received_votes_by_height := hm_retain (\<lambda>(h, _) _. h > ch) (received_votes_by_height s),
            certified_blocks := hm_retain (\<lambda>_ (b, _). bl_height b > ch) (certified_blocks s),
            pending_commits_awaiting_data := hm_retain (\<lambda>_ (h, _). h > ch) (pending_commits_awaiting_data s),
            buffered_synced_blocks := hm_retain (\<lambda>h _. h > ch) (buffered_synced_blocks s),
            pending_synced_block_verifications :=
              hm_retain (\<lambda>_ p. bl_height (ps_block p) > ch) (pending_synced_block_verifications s),
            pending_qc_verifications := hm_retain (\<lambda>h _. live h) (pending_qc_verifications s),
            pending_cycle_proof_verifications := hm_retain (\<lambda>h _. live h) (pending_cycle_proof_verifications s),
            verified_cycle_proofs := hm_retain (\<lambda>h _. live h) (verified_cycle_proofs s),
            pending_state_root_verifications := hm_retain (\<lambda>h _. live h) (pending_state_root_verifications s),
            state_root_verifications_in_flight := hm_retain (\<lambda>h _. live h) (state_root_verifications_in_flight s),
            verified_state_roots := hm_retain (\<lambda>h _. live h) (verified_state_roots s),
            transaction_root_verifications_in_flight :=
              hm_retain (\<lambda>h _. live h) (transaction_root_verifications_in_flight s),
            verified_transaction_roots := hm_retain (\<lambda>h _. live h) (verified_transaction_roots s),
            verified_qcs := hm_retain (\<lambda>_ h. h > saturating_sub ch 2) (verified_qcs s)\<rparr>,
          removed))"

section \<open>Fetching and sync health\<close>

definition fetch_actions_for :: "bft_state \<Rightarrow> hash \<times> pending_block \<Rightarrow> action list" where
  "fetch_actions_for s = (\<lambda>(h, p).
     if is_complete p then []
     else case hm_get (pending_block_created_at s) h of
       None \<Rightarrow> []
     | Some created_at \<Rightarrow>
         let age = now s - created_at; proposer = hd_proposer (pb_header p) in
         (if missing_transactions p \<noteq> [] \<and> age \<ge> cfg_transaction_fetch_timeout (config s)
          then [FetchTransactions h proposer (missing_transactions p)] else [])
         @ (if missing_certificates p \<noteq> [] \<and> age \<ge> cfg_certificate_fetch_timeout (config s)
            then [FetchCertificates h proposer (missing_certificates p)] else []))"

definition check_pending_block_fetches :: "bft_state \<Rightarrow> action list" where
  "check_pending_block_fetches s =
     (if syncing s then [] else concat (map (fetch_actions_for s) (hm_entries (pending_blocks s))))"

definition check_sync_health :: "bft_state \<Rightarrow> bft_state \<times> action list" where
  "check_sync_health s =
     (case latest_qc s of
        None \<Rightarrow> (s, [])
      | Some qc \<Rightarrow>
          if committed_height s \<ge> qc_height qc then (s, [])
          else if syncing s then (s, [])
          else
            let next_needed = committed_height s + 1;
                has_next_block = has_complete_block_at_height s next_needed;
                has_pending_commit = hm_contains (pending_commits s) next_needed;
                gap = saturating_sub (qc_height qc) (committed_height s)
            in if has_next_block then
                 if has_pending_commit then
                   if gap > 10 then start_sync (qc_height qc) (qc_block_hash qc) s else (s, [])
                 else if gap > 3 then start_sync (qc_height qc) (qc_block_hash qc) s
                 else (s, [])
               else start_sync (qc_height qc) (qc_block_hash qc) s)"

definition on_sync_complete :: "bft_state \<Rightarrow> bft_state \<times> action list" where
  "on_sync_complete s = (let s1 = set_syncing False s in (s1, check_pending_block_fetches s1))"

definition pending_commit_counts :: "bft_state \<Rightarrow> quorum_certificate \<Rightarrow> usize \<times> usize" where
  "pending_commit_counts s qc =
     (if \<not> has_committable_block qc then (0, 0)
      else case (committable_hash qc, committable_height qc) of
        (Some h, Some height) \<Rightarrow>
          if height \<le> committed_height s then (0, 0)
          else (case hm_get (pending_blocks s) h of
                  Some p \<Rightarrow> (case constructed_block p of
                      Some b \<Rightarrow> (length (bl_transactions b), length (bl_certificates b))
                    | None \<Rightarrow> (0, 0))
                | None \<Rightarrow> (case hm_get (certified_blocks s) h of
                      Some (b, _) \<Rightarrow> (length (bl_transactions b), length (bl_certificates b))
                    | None \<Rightarrow> (0, 0)))
      | _ \<Rightarrow> (0, 0))"

definition pending_block_tx_cert_counts :: "bft_state \<Rightarrow> usize \<times> usize" where
  "pending_block_tx_cert_counts s =
     fold (\<lambda>p (t, c). (t + length (pb_all_transaction_hashes p), c + length (pb_all_certificate_hashes p)))
       (hm_values (pending_blocks s)) (0, 0)"

section \<open>What a handler does to the commit side of the state\<close>

lemma then_do_simps:
  "fst (then_do r f) = fst (f (fst r))" "snd (then_do r f) = snd r @ snd (f (fst r))"
  by (simp_all add: then_do_def split: prod.splits)

lemma committed_blocks_append [simp]:
  "committed_blocks (xs @ ys) = committed_blocks xs @ committed_blocks ys"
  by (induction xs rule: committed_blocks.induct) auto

lemma committed_blocks_eq_Nil: "(\<And>b. EmitCommittedBlock b \<notin> set acts) \<Longrightarrow> committed_blocks acts = []"
  by (induction acts rule: committed_blocks.induct) auto

lemma committed_blocks_cancel [simp]: "committed_blocks (map CancelFetch hs) = []"
  by (rule committed_blocks_eq_Nil) auto

definition commit_side where
  "commit_side s = (committed_height s, committed_hash s, pending_commits s, buffered_synced_blocks s,
     pending_synced_block_verifications s)"

text \<open>A quiet handler commits nothing and leaves every buffer of the commit path alone.\<close>

definition quiet :: "bft_state \<Rightarrow> bft_state \<times> action list \<Rightarrow> bool" where
  "quiet s r \<longleftrightarrow> commit_side (fst r) = commit_side s \<and> committed_blocks (snd r) = []"

lemma quietI:
  "commit_side s' = commit_side s \<Longrightarrow> committed_blocks acts = [] \<Longrightarrow> quiet s (s', acts)"
  by (simp add: quiet_def)

lemma quiet_then:
  "quiet s r \<Longrightarrow> (\<And>s1. commit_side s1 = commit_side s \<Longrightarrow> quiet s1 (f s1)) \<Longrightarrow> quiet s (then_do r f)"
  by (simp add: quiet_def then_do_simps)

lemma quiet_trans: "commit_side s1 = commit_side s \<Longrightarrow> quiet s1 r \<Longrightarrow> quiet s r"
  by (simp add: quiet_def)

lemma commit_side_set_syncing [simp]: "commit_side (set_syncing b s) = commit_side s"
  by (simp add: commit_side_def set_syncing_def)

lemma commit_side_record [simp]:
  "commit_side (record_leader_activity s) = commit_side s"
  "commit_side (record_header_activity h r s) = commit_side s"
  by (simp_all add: commit_side_def record_leader_activity_def record_header_activity_def)

lemma commit_side_unlock [simp]: "commit_side (maybe_unlock_for_qc qc s) = commit_side s"
  by (simp add: commit_side_def maybe_unlock_for_qc_def Let_def)

lemma commit_side_latest_qc [simp]: "commit_side (s\<lparr>latest_qc := q\<rparr>) = commit_side s"
  by (simp add: commit_side_def)

lemma commit_side_adopt [simp]: "commit_side (adopt_qc qc s) = commit_side s"
  by (simp add: adopt_qc_def)

lemma commit_side_clear_vote [simp]: "commit_side (fst (clear_vote_tracking_for_height h r s)) = commit_side s"
  by (simp add: commit_side_def clear_vote_tracking_for_height_def)

lemma quiet_start_sync: "quiet s (start_sync h b s)"
  by (simp add: start_sync_def quiet_def)

lemma quiet_check_sync_health: "quiet s (check_sync_health s)"
  by (auto simp: check_sync_health_def Let_def quiet_start_sync quietI split: option.split)

lemma committed_blocks_fetches [simp]: "committed_blocks (check_pending_block_fetches s) = []"
  by (rule committed_blocks_eq_Nil)
    (auto simp: check_pending_block_fetches_def fetch_actions_for_def Let_def split: option.splits if_splits)

lemma quiet_on_sync_complete: "quiet s (on_sync_complete s)"
  by (simp add: on_sync_complete_def quiet_def Let_def)

end
