(* ===== verification/Bft_Votes.thy ===== *)
theory Bft_Votes
  imports Bft_Core
begin

text \<open>
  Voting in \<open>crates/bft/src/state.rs\<close>: header and content validation, the asynchronous
  verifications before a vote, vote creation, and vote collection up to the request for a
  quorum certificate.  A \<open>Result<(), String>\<close> is an optional error, \<open>None\<close> being \<open>Ok\<close>.
\<close>

section \<open>Header validation\<close>

datatype header_error =
    Height_committed u64 u64
  | Wrong_proposer "validator_id option" validator_id
  | Parent_no_quorum
  | Parent_height_mismatch u64 u64
  | Parent_hash_mismatch hash hash
  | Genesis_qc_height u64
  | Timestamp_too_old u64 u64
  | Timestamp_too_far u64 u64

definition validate_timestamp :: "bft_state \<Rightarrow> block_header \<Rightarrow> header_error option" where
  "validate_timestamp s h =
     (if header_is_genesis h then None
      else if hd_is_fallback h then None
      else
        let now_ms = as_millis_u64 (now s) in
        if hd_timestamp h < saturating_sub now_ms (cfg_max_timestamp_delay_ms (config s))
        then Some (Timestamp_too_old (hd_timestamp h) now_ms)
        else if hd_timestamp h > now_ms + cfg_max_timestamp_rush_ms (config s)
        then Some (Timestamp_too_far (hd_timestamp h) now_ms)
        else None)"

definition validate_header :: "bft_state \<Rightarrow> block_header \<Rightarrow> header_error option" where
  "validate_header s h =
     (let height = hd_height h; round = hd_round h; qc = hd_parent_qc h in
      if height \<le> committed_height s then Some (Height_committed height (committed_height s))
      else if proposer_for (topology s) height round \<noteq> Some (hd_proposer h)
      then Some (Wrong_proposer (proposer_for (topology s) height round) (hd_proposer h))
      else
        let qc_error =
          (if \<not> qc_is_genesis qc then
             if \<not> has_quorum (qc_voting_power qc) (total_voting_power s) then Some Parent_no_quorum
             else if qc_height qc + 1 \<noteq> height then Some (Parent_height_mismatch (qc_height qc) height)
             else if hd_parent_hash h \<noteq> qc_block_hash qc
             then Some (Parent_hash_mismatch (hd_parent_hash h) (qc_block_hash qc))
             else None
           else if height \<noteq> committed_height s + 1 then Some (Genesis_qc_height height)
           else None)
        in case qc_error of Some e \<Rightarrow> Some e | None \<Rightarrow> validate_timestamp s h)"

section \<open>Content validation\<close>

datatype content_error =
    Deferred_not_above_winner hash hash
  | Winner_certified hash
  | Loser_certified hash
  | Proof_winner_mismatch hash hash
  | Abort_before_commit u64 u64
  | Zero_retry_count
  | Not_hash_sorted string hash hash
  | Not_a_retry hash
  | Retry_in_priority hash
  | No_commitment_proof hash
  | Retry_in_other hash
  | Proof_in_other hash

primrec first_error :: "('a \<Rightarrow> 'e option) \<Rightarrow> 'a list \<Rightarrow> 'e option" where
  "first_error f [] = None"
| "first_error f (x # xs) = (case f x of Some e \<Rightarrow> Some e | None \<Rightarrow> first_error f xs)"

definition or_else :: "'e option \<Rightarrow> 'e option \<Rightarrow> 'e option" where
  "or_else a b = (case a of Some e \<Rightarrow> Some e | None \<Rightarrow> b)"

definition deferral_error :: "hash hset \<Rightarrow> transaction_defer \<Rightarrow> content_error option" where
  "deferral_error cert_hashes d =
     (let winner = winner_hash d in
      if td_tx_hash d \<le> winner then Some (Deferred_not_above_winner (td_tx_hash d) winner)
      else if hm_contains cert_hashes winner then Some (Winner_certified winner)
      else if hm_contains cert_hashes (td_tx_hash d) then Some (Loser_certified (td_tx_hash d))
      else if cy_winner_tx_hash (td_proof d) \<noteq> winner
      then Some (Proof_winner_mismatch (cy_winner_tx_hash (td_proof d)) winner)
      else None)"

definition abort_error :: "transaction_abort \<Rightarrow> content_error option" where
  "abort_error a =
     (case ta_reason a of
        ExecutionTimeout committed_at \<Rightarrow>
          if ta_block_height a < committed_at
          then Some (Abort_before_commit (ta_block_height a) committed_at) else None
      | TooManyRetries n \<Rightarrow> if n = 0 then Some Zero_retry_count else None
      | ExecutionRejected _ \<Rightarrow> None)"

definition validate_deferrals_and_aborts :: "block \<Rightarrow> content_error option" where
  "validate_deferrals_and_aborts b =
     (let cert_hashes = hs_collect (map tc_transaction_hash (bl_certificates b)) in
      or_else (first_error (deferral_error cert_hashes) (bl_deferred b))
        (first_error abort_error (bl_aborted b)))"

fun verify_hash_sorted :: "string \<Rightarrow> routable_transaction list \<Rightarrow> content_error option" where
  "verify_hash_sorted section (a # b # rest) =
     (if tx_hash a \<ge> tx_hash b then Some (Not_hash_sorted section (tx_hash a) (tx_hash b))
      else verify_hash_sorted section (b # rest))"
| "verify_hash_sorted section [a] = None"
| "verify_hash_sorted section [] = None"

definition has_commitment_proof :: "block \<Rightarrow> hash \<Rightarrow> bool" where
  "has_commitment_proof b h \<longleftrightarrow> hm_contains (bl_commitment_proofs b) h"

definition validate_transaction_ordering :: "block \<Rightarrow> content_error option" where
  "validate_transaction_ordering b =
     or_else (verify_hash_sorted ''retry'' (bl_retry_transactions b))
     (or_else (verify_hash_sorted ''priority'' (bl_priority_transactions b))
     (or_else (verify_hash_sorted ''other'' (bl_transactions b))
     (or_else (first_error (\<lambda>tx. if \<not> is_retry tx then Some (Not_a_retry (tx_hash tx)) else None)
         (bl_retry_transactions b))
     (or_else (first_error (\<lambda>tx. if is_retry tx then Some (Retry_in_priority (tx_hash tx))
           else if \<not> has_commitment_proof b (tx_hash tx) then Some (No_commitment_proof (tx_hash tx))
           else None) (bl_priority_transactions b))
       (first_error (\<lambda>tx. if is_retry tx then Some (Retry_in_other (tx_hash tx))
           else if has_commitment_proof b (tx_hash tx) then Some (Proof_in_other (tx_hash tx))
           else None) (bl_transactions b))))))"

section \<open>Vote collection\<close>

definition maybe_trigger_vote_verification :: "hash \<Rightarrow> bft_state \<Rightarrow> bft_state \<times> action list" where
  "maybe_trigger_vote_verification h s =
     (case hm_get (vote_sets s) h of
        None \<Rightarrow> (s, [])
      | Some vs \<Rightarrow>
          if \<not> should_trigger_verification vs (total_voting_power s) then (s, [])
          else (case verification_data vs of
                  None \<Rightarrow> (s, [])
                | Some (_, height, round, parent) \<Rightarrow>
                    let (vs1, votes_to_verify) = take_unverified_votes vs;
                        s1 = s\<lparr>vote_sets := hm_insert h vs1 (vote_sets s)\<rparr>
                    in if votes_to_verify = [] then (s1, [])
                       else (s1, [VerifyAndBuildQuorumCertificate h height round parent
                               (block_vote_message (shard_group s) height round h)
                               votes_to_verify (verified_votes vs) (total_voting_power s)])))"

definition on_block_vote_internal :: "crypto_env \<Rightarrow> block_vote \<Rightarrow> bft_state \<Rightarrow> bft_state \<times> action list" where
  "on_block_vote_internal E vote s =
     (let h = bv_block_hash vote; is_own_vote = (bv_voter vote = validator_id_of s) in
      if bv_height vote \<le> committed_height s then (s, [])
      else case local_committee_index (topology s) (bv_voter vote) of
        None \<Rightarrow> (s, [])
      | Some voter_index \<Rightarrow>
          let vpower = voting_power_of s (bv_voter vote) in
          if vpower = 0 then (s, [])
          else if \<not> is_own_vote \<and> public_key (topology s) (bv_voter vote) = None then (s, [])
          else
            let vs = (case hm_get (vote_sets s) h of
                  Some vs \<Rightarrow> vs
                | None \<Rightarrow> vset_new E (map_option pb_header (hm_get (pending_blocks s) h))
                            (length (local_committee (topology s))))
            in if has_seen_validator vs voter_index
               then (s\<lparr>vote_sets := hm_insert h vs (vote_sets s)\<rparr>, [])
               else
                 let vs1 = (if is_own_vote then fst (add_verified_vote voter_index vote vpower vs)
                            else fst (buffer_unverified_vote voter_index vote
                                   (the (public_key (topology s) (bv_voter vote))) vpower vs))
                 in maybe_trigger_vote_verification h (s\<lparr>vote_sets := hm_insert h vs1 (vote_sets s)\<rparr>))"

definition on_block_vote :: "crypto_env \<Rightarrow> block_vote \<Rightarrow> bft_state \<Rightarrow> bft_state \<times> action list" where
  "on_block_vote E vote s = on_block_vote_internal E vote s"

definition create_vote :: "crypto_env \<Rightarrow> hash \<Rightarrow> u64 \<Rightarrow> u64 \<Rightarrow> bft_state \<Rightarrow> bft_state \<times> action list" where
  "create_vote E h height round s =
     (let s1 = s\<lparr>voted_heights := hm_insert height (h, round) (voted_heights s)\<rparr>;
          vote = \<lparr>bv_block_hash = h, bv_height = height, bv_round = round, bv_voter = validator_id_of s,
                  bv_signature = env_sign E (signing_key s) (block_vote_message (shard_group s) height round h),
                  bv_timestamp = as_millis_u64 (now s)\<rparr>;
          (s2, acts) = on_block_vote_internal E vote s1
      in (s2, PersistAndBroadcastVote height round h (local_shard (topology s)) (Msg_BlockVote vote) # acts))"

text \<open>The recording loop of \<open>on_qc_result\<close>: view synchronisation and equivocation tracking.\<close>

definition record_verified_vote :: "hash \<Rightarrow> verified_vote \<Rightarrow> bft_state \<Rightarrow> bft_state" where
  "record_verified_vote h = (\<lambda>(_, vote, _) s.
     let s1 = (if bv_round vote > view s then s\<lparr>view := bv_round vote\<rparr> else s);
         key = (bv_height vote, bv_voter vote)
     in case hm_get (received_votes_by_height s1) key of
          Some (existing_hash, existing_round) \<Rightarrow>
            if existing_hash \<noteq> h \<and> existing_round = bv_round vote then s1
            else s1\<lparr>received_votes_by_height :=
                   hm_insert key (h, bv_round vote) (received_votes_by_height s1)\<rparr>
        | None \<Rightarrow> s1\<lparr>received_votes_by_height :=
                   hm_insert key (h, bv_round vote) (received_votes_by_height s1)\<rparr>)"

definition on_qc_result :: "hash \<Rightarrow> quorum_certificate option \<Rightarrow> verified_vote list \<Rightarrow> bft_state
    \<Rightarrow> bft_state \<times> action list" where
  "on_qc_result h qc_opt votes s =
     (case qc_opt of
        Some qc \<Rightarrow>
          (s\<lparr>vote_sets := hm_modify h on_qc_built (vote_sets s)\<rparr>,
           [EnqueueInternal (QuorumCertificateFormed h qc)])
      | None \<Rightarrow>
          let s1 = fold (record_verified_vote h) votes s in
          (case hm_get (vote_sets s1) h of
             None \<Rightarrow> (s1, [])
           | Some vs \<Rightarrow>
               maybe_trigger_vote_verification h
                 (s1\<lparr>vote_sets := hm_insert h (on_votes_verified votes vs) (vote_sets s1)\<rparr>)))"

section \<open>Verifications before a vote\<close>

definition collect_qc_signer_keys :: "bft_state \<Rightarrow> public_key list option" where
  "collect_qc_signer_keys s =
     those (map (\<lambda>i. case local_validator_at_index (topology s) i of
                       Some v \<Rightarrow> public_key (topology s) v | None \<Rightarrow> None)
            [0..<local_committee_size (topology s)])"

definition block_needs_cycle_proof_verification :: "crypto_env \<Rightarrow> bft_state \<Rightarrow> block \<Rightarrow> bool" where
  "block_needs_cycle_proof_verification E s b \<longleftrightarrow>
     bl_deferred b \<noteq> []
     \<and> \<not> (hm_contains (verified_cycle_proofs s) (block_hash E b)
         \<or> hm_contains (pending_cycle_proof_verifications s) (block_hash E b))"

definition resolve_commitment_proof_signers :: "bft_state \<Rightarrow> commitment_proof \<Rightarrow> shard_group_id
    \<Rightarrow> public_key list" where
  "resolve_commitment_proof_signers s proof source_shard =
     (let committee = committee_for_shard (topology s) source_shard in
      List.map_filter (\<lambda>i. if i < length committee then public_key (topology s) (committee ! i) else None)
        (bf_set_indices (cp_signers proof)))"

definition cycle_proof_action :: "crypto_env \<Rightarrow> bft_state \<Rightarrow> hash \<Rightarrow> usize \<Rightarrow> transaction_defer \<Rightarrow> action" where
  "cycle_proof_action E s h idx d =
     (let proof = td_proof d; source_shard = winner_source_shard proof;
          commitment = cy_winner_commitment proof
      in VerifyCycleProof h idx proof (resolve_commitment_proof_signers s commitment source_shard)
           (state_provision_message (cp_tx_hash commitment) (shard_group s) source_shard
              (cp_block_height commitment) (cp_block_timestamp commitment)
              (map (entry_hash (env_blake3 E)) (cp_entries commitment)))
           (quorum_threshold_for_shard (topology s) source_shard))"

definition initiate_cycle_proof_verification :: "crypto_env \<Rightarrow> hash \<Rightarrow> block \<Rightarrow> bft_state
    \<Rightarrow> bft_state \<times> action list" where
  "initiate_cycle_proof_verification E h b s =
     (if bl_deferred b = [] then (s, [])
      else
        let s1 = s\<lparr>pending_cycle_proof_verifications := hm_insert h
                   \<lparr>pcp_total = length (bl_deferred b), pcp_verified = 0, pcp_all_valid = True\<rparr>
                   (pending_cycle_proof_verifications s)\<rparr>
        in (s1, map (\<lambda>(idx, d). cycle_proof_action E s1 h idx d) (enumerate 0 (bl_deferred b))))"

definition block_verifications_complete :: "crypto_env \<Rightarrow> bft_state \<Rightarrow> block \<Rightarrow> bool" where
  "block_verifications_complete E s b \<longleftrightarrow>
     (bl_deferred b = [] \<or> hm_contains (verified_cycle_proofs s) (block_hash E b))
     \<and> (bl_certificates b = [] \<or> hm_contains (verified_state_roots s) (block_hash E b))
     \<and> (transaction_count b = 0 \<or> hm_contains (verified_transaction_roots s) (block_hash E b))"

definition block_needs_state_root_verification :: "crypto_env \<Rightarrow> bft_state \<Rightarrow> block \<Rightarrow> bool" where
  "block_needs_state_root_verification E s b \<longleftrightarrow>
     bl_certificates b \<noteq> []
     \<and> \<not> (hm_contains (verified_state_roots s) (block_hash E b)
         \<or> hm_contains (state_root_verifications_in_flight s) (block_hash E b)
         \<or> hm_contains (pending_state_root_verifications s) (block_hash E b))"

definition initiate_state_root_verification :: "crypto_env \<Rightarrow> hash \<Rightarrow> block \<Rightarrow> bft_state
    \<Rightarrow> bft_state \<times> action list" where
  "initiate_state_root_verification E h b s =
     (let current_root = snd (last_committed_jmt_state s);
          parent_root = (case get_block_by_hash E s (hd_parent_hash (bl_header b)) of
              Some parent \<Rightarrow> hd_state_root (bl_header parent) | None \<Rightarrow> current_root);
          expected_root = hd_state_root (bl_header b)
      in if current_root = parent_root
         then (s\<lparr>state_root_verifications_in_flight := hs_insert h (state_root_verifications_in_flight s)\<rparr>,
               [VerifyStateRoot h parent_root expected_root (bl_certificates b)])
         else (s\<lparr>pending_state_root_verifications := hm_insert h
                   \<lparr>psr_required_root = parent_root, psr_expected_root = expected_root,
                    psr_certificates = bl_certificates b\<rparr> (pending_state_root_verifications s)\<rparr>, []))"

definition block_needs_transaction_root_verification :: "crypto_env \<Rightarrow> bft_state \<Rightarrow> block \<Rightarrow> bool" where
  "block_needs_transaction_root_verification E s b \<longleftrightarrow>
     transaction_count b \<noteq> 0
     \<and> \<not> (hm_contains (verified_transaction_roots s) (block_hash E b)
         \<or> hm_contains (transaction_root_verifications_in_flight s) (block_hash E b))"

definition initiate_transaction_root_verification :: "hash \<Rightarrow> block \<Rightarrow> bft_state \<Rightarrow> bft_state \<times> action list" where
  "initiate_transaction_root_verification h b s =
     (s\<lparr>transaction_root_verifications_in_flight := hs_insert h (transaction_root_verifications_in_flight s)\<rparr>,
      [VerifyTransactionRoot h (hd_transaction_root (bl_header b)) (bl_retry_transactions b)
         (bl_priority_transactions b) (bl_transactions b)])"

text \<open>The block of verifications that \<open>try_vote_on_block\<close> starts before it votes.\<close>

definition initiate_verifications :: "crypto_env \<Rightarrow> hash \<Rightarrow> block \<Rightarrow> bft_state \<Rightarrow> bft_state \<times> action list" where
  "initiate_verifications E h b s =
     (let (s1, a1) = (if block_needs_cycle_proof_verification E s b
                      then initiate_cycle_proof_verification E h b s else (s, []));
          (s2, a2) = (if block_needs_state_root_verification E s1 b
                      then initiate_state_root_verification E h b s1 else (s1, []));
          (s3, a3) = (if block_needs_transaction_root_verification E s2 b
                      then initiate_transaction_root_verification h b s2 else (s2, []))
      in (s3, a1 @ a2 @ a3))"

definition try_vote_on_block :: "crypto_env \<Rightarrow> hash \<Rightarrow> u64 \<Rightarrow> u64 \<Rightarrow> bft_state \<Rightarrow> bft_state \<times> action list" where
  "try_vote_on_block E h height round s =
     (if hm_contains (voted_heights s) height then (s, [])
      else case (case hm_get (pending_blocks s) h of Some p \<Rightarrow> constructed_block p | None \<Rightarrow> None) of
        Some b \<Rightarrow>
          if validate_deferrals_and_aborts b \<noteq> None then (s, [])
          else if validate_transaction_ordering b \<noteq> None then (s, [])
          else
            let (s1, verification_actions) = initiate_verifications E h b s in
            if verification_actions \<noteq> [] then (s1, verification_actions)
            else create_vote E h height round s1
      | None \<Rightarrow> create_vote E h height round s)"

definition trigger_qc_verification_or_vote :: "crypto_env \<Rightarrow> hash \<Rightarrow> bft_state \<Rightarrow> bft_state \<times> action list" where
  "trigger_qc_verification_or_vote E h s =
     (case hm_get (pending_blocks s) h of
        None \<Rightarrow> (s, [])
      | Some p \<Rightarrow>
          let header = pb_header p; height = hd_height header; round = hd_round header;
              qc = hd_parent_qc header
          in if \<not> qc_is_genesis qc then
               if hm_contains (verified_qcs s) (qc_block_hash qc)
               then try_vote_on_block E h height round s
               else if hm_contains (pending_qc_verifications s) h then (s, [])
               else (case collect_qc_signer_keys s of
                       None \<Rightarrow> (s, [])
                     | Some public_keys \<Rightarrow>
                         (s\<lparr>pending_qc_verifications := hm_insert h header (pending_qc_verifications s)\<rparr>,
                          [VerifyQcSignature qc public_keys h
                             (block_vote_message (shard_group s) (qc_height qc) (qc_round qc) (qc_block_hash qc))]))
             else try_vote_on_block E h height round s)"

text \<open>The end of the three verification callbacks: vote once everything is verified.\<close>

definition vote_if_verified :: "crypto_env \<Rightarrow> hash \<Rightarrow> bft_state \<Rightarrow> bft_state \<times> action list" where
  "vote_if_verified E h s =
     (case hm_get (pending_blocks s) h of
        None \<Rightarrow> (s, [])
      | Some p \<Rightarrow>
          (case constructed_block p of
             None \<Rightarrow> (s, [])
           | Some b \<Rightarrow>
               if \<not> block_verifications_complete E s b then (s, [])
               else create_vote E h (hd_height (pb_header p)) (hd_round (pb_header p)) s))"

definition on_cycle_proof_verified :: "crypto_env \<Rightarrow> hash \<Rightarrow> bool \<Rightarrow> bft_state \<Rightarrow> bft_state \<times> action list" where
  "on_cycle_proof_verified E h valid s =
     (case hm_get (pending_cycle_proof_verifications s) h of
        None \<Rightarrow> (s, [])
      | Some p \<Rightarrow>
          let p1 = p\<lparr>pcp_verified := pcp_verified p + 1, pcp_all_valid := pcp_all_valid p \<and> valid\<rparr> in
          if pcp_verified p1 < pcp_total p1
          then (s\<lparr>pending_cycle_proof_verifications := hm_insert h p1 (pending_cycle_proof_verifications s)\<rparr>, [])
          else
            let s1 = s\<lparr>pending_cycle_proof_verifications := hm_remove h (pending_cycle_proof_verifications s)\<rparr> in
            if \<not> pcp_all_valid p1 then (s1\<lparr>pending_blocks := hm_remove h (pending_blocks s1)\<rparr>, [])
            else vote_if_verified E h
                   (s1\<lparr>verified_cycle_proofs := hs_insert h (verified_cycle_proofs s1)\<rparr>))"

definition on_state_root_verified :: "crypto_env \<Rightarrow> hash \<Rightarrow> bool \<Rightarrow> bft_state \<Rightarrow> bft_state \<times> action list" where
  "on_state_root_verified E h valid s =
     (let s1 = s\<lparr>state_root_verifications_in_flight := hm_remove h (state_root_verifications_in_flight s)\<rparr> in
      if \<not> valid then (s1\<lparr>pending_blocks := hm_remove h (pending_blocks s1)\<rparr>, [])
      else vote_if_verified E h (s1\<lparr>verified_state_roots := hs_insert h (verified_state_roots s1)\<rparr>))"

definition on_transaction_root_verified :: "crypto_env \<Rightarrow> hash \<Rightarrow> bool \<Rightarrow> bft_state \<Rightarrow> bft_state \<times> action list" where
  "on_transaction_root_verified E h valid s =
     (let s1 = s\<lparr>transaction_root_verifications_in_flight :=
                 hm_remove h (transaction_root_verifications_in_flight s)\<rparr> in
      if \<not> valid then (s1\<lparr>pending_blocks := hm_remove h (pending_blocks s1)\<rparr>, [])
      else vote_if_verified E h
             (s1\<lparr>verified_transaction_roots := hs_insert h (verified_transaction_roots s1)\<rparr>))"

definition unblock_state_root :: "hash \<Rightarrow> bft_state \<times> action list \<Rightarrow> bft_state \<times> action list" where
  "unblock_state_root h = (\<lambda>(s, acts).
     case hm_get (pending_state_root_verifications s) h of
       None \<Rightarrow> (s, acts)
     | Some pv \<Rightarrow>
         (s\<lparr>pending_state_root_verifications := hm_remove h (pending_state_root_verifications s),
            state_root_verifications_in_flight := hs_insert h (state_root_verifications_in_flight s)\<rparr>,
          acts @ [VerifyStateRoot h (psr_required_root pv) (psr_expected_root pv) (psr_certificates pv)]))"

definition on_state_commit_complete :: "u64 \<Rightarrow> hash \<Rightarrow> bft_state \<Rightarrow> bft_state \<times> action list" where
  "on_state_commit_complete state_version state_root s =
     (if state_version \<le> fst (last_committed_jmt_state s) then (s, [])
      else
        let s1 = s\<lparr>last_committed_jmt_state := (state_version, state_root)\<rparr>;
            unblocked = map fst (filter (\<lambda>(_, pv). psr_required_root pv = state_root)
                          (hm_entries (pending_state_root_verifications s1)))
        in fold unblock_state_root unblocked (s1, []))"

section \<open>Voting never commits\<close>

lemma commit_side_vote_sets [simp]: "commit_side (s\<lparr>vote_sets := v\<rparr>) = commit_side s"
  by (simp add: commit_side_def)

lemma quiet_maybe_trigger: "quiet s (maybe_trigger_vote_verification h s)"
  unfolding maybe_trigger_vote_verification_def
  by (auto simp: Let_def quiet_def split: option.splits prod.splits)

lemma quiet_on_block_vote_internal: "quiet s (on_block_vote_internal E vote s)"
proof -
  have "quiet s (maybe_trigger_vote_verification h (s\<lparr>vote_sets := v\<rparr>))" for h v
    by (rule quiet_trans [OF _ quiet_maybe_trigger]) simp
  then show ?thesis
    unfolding on_block_vote_internal_def Let_def by (auto simp: quiet_def split: option.split)
qed

lemma quiet_create_vote: "quiet s (create_vote E h height round s)"
proof -
  define s1 where "s1 = s\<lparr>voted_heights := hm_insert height (h, round) (voted_heights s)\<rparr>"
  have "commit_side s1 = commit_side s" by (simp add: s1_def commit_side_def)
  then have "quiet s (on_block_vote_internal E v s1)" for v
    using quiet_trans quiet_on_block_vote_internal by blast
  then show ?thesis
    unfolding create_vote_def Let_def s1_def [symmetric] by (simp add: quiet_def split_beta)
qed

lemma commit_side_record_verified [simp]: "commit_side (record_verified_vote h v s) = commit_side s"
  by (auto simp: record_verified_vote_def commit_side_def Let_def split: prod.splits option.splits)

lemma commit_side_fold_record [simp]: "commit_side (fold (record_verified_vote h) vs s) = commit_side s"
  by (induction vs arbitrary: s) auto

lemma quiet_on_qc_result: "quiet s (on_qc_result h qc votes s)"
proof -
  have "quiet s (maybe_trigger_vote_verification h (fold (record_verified_vote h) votes s\<lparr>vote_sets := v\<rparr>))" for v
    by (rule quiet_trans [OF _ quiet_maybe_trigger]) simp
  then show ?thesis
    unfolding on_qc_result_def Let_def by (auto simp: quiet_def split: option.split)
qed

lemma quiet_initiate:
  "quiet s (initiate_cycle_proof_verification E h b s)"
  "quiet s (initiate_state_root_verification E h b s)"
  "quiet s (initiate_transaction_root_verification h b s)"
proof -
  have "committed_blocks (map (\<lambda>(i, d). cycle_proof_action E s' h i d) xs) = []" for s' xs
    by (rule committed_blocks_eq_Nil) (auto simp: cycle_proof_action_def Let_def)
  then show "quiet s (initiate_cycle_proof_verification E h b s)"
    by (simp add: initiate_cycle_proof_verification_def quiet_def commit_side_def Let_def)
qed (simp_all add: initiate_state_root_verification_def initiate_transaction_root_verification_def
       quiet_def commit_side_def Let_def)

lemma initiate_verifications_then:
  "initiate_verifications E h b s =
     then_do (if block_needs_cycle_proof_verification E s b
              then initiate_cycle_proof_verification E h b s else (s, []))
       (\<lambda>s1. then_do (if block_needs_state_root_verification E s1 b
              then initiate_state_root_verification E h b s1 else (s1, []))
       (\<lambda>s2. if block_needs_transaction_root_verification E s2 b
              then initiate_transaction_root_verification h b s2 else (s2, [])))"
  unfolding initiate_verifications_def then_do_def Let_def by (simp split: prod.splits)

lemma quiet_initiate_verifications: "quiet s (initiate_verifications E h b s)"
  unfolding initiate_verifications_then
  by (intro quiet_then) (simp_all add: quiet_initiate quiet_def [of _ "(_, [])"])

lemma quiet_try_vote: "quiet s (try_vote_on_block E h height round s)"
proof -
  have "quiet s (create_vote E h height round (fst (initiate_verifications E h b s)))" for b
    by (rule quiet_trans [OF _ quiet_create_vote]) (use quiet_initiate_verifications in \<open>simp add: quiet_def\<close>)
  then show ?thesis
    unfolding try_vote_on_block_def Let_def
    by (simp add: quiet_create_vote quiet_initiate_verifications quiet_def [of _ "(_, [])"] split_beta
        split: option.split)
qed

lemma quiet_trigger: "quiet s (trigger_qc_verification_or_vote E h s)"
  unfolding trigger_qc_verification_or_vote_def Let_def
  by (auto simp: quiet_try_vote intro!: quietI split: option.split) (auto simp: commit_side_def)

lemma quiet_vote_if_verified: "quiet s (vote_if_verified E h s)"
  unfolding vote_if_verified_def by (auto simp: quiet_create_vote intro!: quietI split: option.split)

lemma quiet_verified_callbacks:
  "quiet s (on_cycle_proof_verified E h valid s)"
  "quiet s (on_state_root_verified E h valid s)"
  "quiet s (on_transaction_root_verified E h valid s)"
  unfolding on_cycle_proof_verified_def on_state_root_verified_def on_transaction_root_verified_def Let_def
  by (auto intro!: quietI quiet_trans [OF _ quiet_vote_if_verified] simp: commit_side_def split: option.split)

lemma quiet_on_state_commit_complete: "quiet s (on_state_commit_complete v r s)"
proof -
  have *: "commit_side (fst (unblock_state_root h p)) = commit_side (fst p)
      \<and> committed_blocks (snd (unblock_state_root h p)) = committed_blocks (snd p)" for h p
    by (auto simp: unblock_state_root_def commit_side_def split: prod.splits option.splits)
  have "commit_side (fst (fold unblock_state_root hs p)) = commit_side (fst p)
      \<and> committed_blocks (snd (fold unblock_state_root hs p)) = committed_blocks (snd p)" for hs p
    by (induction hs arbitrary: p) (simp_all add: *)
  then show ?thesis
    unfolding on_state_commit_complete_def by (simp add: quiet_def Let_def commit_side_def)
qed

section \<open>The votes a handler casts\<close>

text \<open>Height, round and block of the votes in a list of actions.\<close>

fun votes_cast :: "action list \<Rightarrow> (u64 \<times> u64 \<times> hash) list" where
  "votes_cast [] = []"
| "votes_cast (PersistAndBroadcastVote height round h _ _ # acts) = (height, round, h) # votes_cast acts"
| "votes_cast (_ # acts) = votes_cast acts"

lemma votes_cast_append [simp]: "votes_cast (xs @ ys) = votes_cast xs @ votes_cast ys"
  by (induction xs rule: votes_cast.induct) auto

lemma votes_cast_iff:
  "(he, r, h) \<in> set (votes_cast acts) \<longleftrightarrow> (\<exists>sh m. PersistAndBroadcastVote he r h sh m \<in> set acts)"
  by (induction acts rule: votes_cast.induct) auto

lemma votes_cast_eq_Nil:
  assumes "\<And>he r h sh m. PersistAndBroadcastVote he r h sh m \<notin> set acts"
  shows "votes_cast acts = []"
proof (rule ccontr)
  assume "votes_cast acts \<noteq> []"
  then obtain he r h where "(he, r, h) \<in> set (votes_cast acts)" by (metis list.set_sel(1) prod_cases3)
  then show False using assms by (simp add: votes_cast_iff)
qed

lemma trigger_action:
  "a \<in> set (snd (maybe_trigger_vote_verification h s)) \<Longrightarrow>
   \<exists>he r p m vs ws t. a = VerifyAndBuildQuorumCertificate h he r p m vs ws t"
  unfolding maybe_trigger_vote_verification_def Let_def
  by (simp split: option.splits if_splits prod.splits)

lemma vote_action:
  "a \<in> set (snd (on_block_vote_internal E v s)) \<Longrightarrow>
   \<exists>he r p m vs ws t. a = VerifyAndBuildQuorumCertificate (bv_block_hash v) he r p m vs ws t"
  unfolding on_block_vote_internal_def Let_def
  by (auto dest!: trigger_action split: option.splits if_splits)

lemma create_vote_action:
  "a \<in> set (snd (create_vote E h height round s)) \<Longrightarrow>
   (\<exists>sh m. a = PersistAndBroadcastVote height round h sh m)
   \<or> (\<exists>he r p m vs ws t. a = VerifyAndBuildQuorumCertificate h he r p m vs ws t)"
  by (auto simp: create_vote_def Let_def split_beta dest!: vote_action)

lemma votes_cast_create_vote [simp]: "votes_cast (snd (create_vote E h height round s)) = [(height, round, h)]"
proof -
  have "votes_cast (snd (on_block_vote_internal E v t)) = []" for v t
    by (rule votes_cast_eq_Nil) (auto dest!: vote_action)
  then show ?thesis by (simp add: create_vote_def Let_def split_beta)
qed

lemma voted_heights_vote_internal [simp]: "voted_heights (fst (on_block_vote_internal E v s)) = voted_heights s"
proof -
  have "voted_heights (fst (maybe_trigger_vote_verification h t)) = voted_heights t" for h t
    unfolding maybe_trigger_vote_verification_def Let_def by (simp split: option.split prod.split)
  then show ?thesis
    unfolding on_block_vote_internal_def Let_def by (simp split: option.split)
qed

lemma voted_heights_create_vote [simp]:
  "voted_heights (fst (create_vote E h height round s)) = hm_insert height (h, round) (voted_heights s)"
  by (simp add: create_vote_def Let_def split_beta)

end
