(* ===== verification/Bft_Commit.thy ===== *)
theory Bft_Commit
  imports Bft_Votes
begin

text \<open>
  Committing and synchronising in \<open>crates/bft/src/state.rs\<close>: the two-chain commit with its
  buffer of out-of-order commits, and the blocks fetched by sync with their own buffer.

  The methods call each other in a cycle: \<open>try_drain_buffered_synced_blocks\<close> submits a block,
  a block with the genesis QC is applied at once, applying drains the pending commits, a
  commit drains the synced blocks again.  Each method of the cycle is written once, with the
  recursive call as an argument \<open>drain\<close>; \<open>try_drain_fuel\<close> ties the knot with a number of turns,
  and \<open>try_drain_unfold\<close> shows that the number chosen is always enough: the equation has no
  fuel in it.
\<close>

section \<open>Committing a block and its buffered successors\<close>

definition commit_one :: "hash \<Rightarrow> block \<Rightarrow> bft_state \<Rightarrow> bft_state \<times> action list" where
  "commit_one h b s =
     (let s1 = s\<lparr>committed_height := bl_height b, committed_hash := h,
                 last_chain_committed_state_version := hd_state_version (bl_header b),
                 view_at_height_start := view s\<rparr>;
          (s2, removed) = cleanup_old_state (bl_height b) (record_leader_activity s1)
      in (s2, map CancelFetch removed
              @ [EmitCommittedBlock b, EnqueueInternal (BlockCommitted h (bl_height b) b)]))"

lemma pending_commits_commit_one: "pending_commits (fst (commit_one h b s)) = pending_commits s"
  by (simp add: commit_one_def cleanup_old_state_def record_leader_activity_def Let_def)

text \<open>The loop of \<open>commit_block_and_buffered\<close>; every further turn takes an entry out of \<open>pending_commits\<close>.\<close>

function commit_loop :: "hash \<Rightarrow> bft_state \<Rightarrow> bft_state \<times> action list" where
  "commit_loop h s =
     (case commit_lookup s h of
        None \<Rightarrow> (s, [])
      | Some b \<Rightarrow>
          if bl_height b \<noteq> committed_height s + 1 then (s, [])
          else
            let r = commit_one h b s; next_h = bl_height b + 1 in
            (case hm_get (pending_commits (fst r)) next_h of
               None \<Rightarrow> r
             | Some (next_hash, _) \<Rightarrow>
                 then_do r (\<lambda>_. commit_loop next_hash
                   ((fst r)\<lparr>pending_commits := hm_remove next_h (pending_commits (fst r))\<rparr>))))"
  by pat_completeness auto
termination
  by (relation "measure (\<lambda>(_, s). hm_len (pending_commits s))")
    (auto simp: pending_commits_commit_one hm_len_remove_less)

declare commit_loop.simps [simp del]

definition commit_block_and_buffered_with ::
    "(bft_state \<Rightarrow> bft_state \<times> action list) \<Rightarrow> hash \<Rightarrow> bft_state \<Rightarrow> bft_state \<times> action list" where
  "commit_block_and_buffered_with drain h s = then_do (commit_loop h s) drain"

definition on_block_ready_to_commit_with ::
    "(bft_state \<Rightarrow> bft_state \<times> action list) \<Rightarrow> hash \<Rightarrow> quorum_certificate \<Rightarrow> bft_state
     \<Rightarrow> bft_state \<times> action list" where
  "on_block_ready_to_commit_with drain h qc s =
     (case commit_lookup s h of
        None \<Rightarrow>
          (case hm_get (pending_blocks s) h of
             Some p \<Rightarrow>
               let height = hd_height (pb_header p) in
               if height > committed_height s
               then (s\<lparr>pending_commits_awaiting_data :=
                       hm_insert h (height, qc) (pending_commits_awaiting_data s)\<rparr>, [])
               else (s, [])
           | None \<Rightarrow> (s, []))
      | Some b \<Rightarrow>
          let height = bl_height b in
          if height \<le> committed_height s then (s, [])
          else if height \<noteq> committed_height s + 1
          then (s\<lparr>pending_commits := hm_insert height (h, qc) (pending_commits s)\<rparr>, [])
          else commit_block_and_buffered_with drain h s)"

text \<open>
  The loop of \<open>drain_pending_commits\<close>, with as many turns as there are pending commits and one
  more; every turn that continues has taken one out.
\<close>

primrec drain_pending_commits_fuel ::
    "nat \<Rightarrow> (bft_state \<Rightarrow> bft_state \<times> action list) \<Rightarrow> bft_state \<Rightarrow> bft_state \<times> action list" where
  "drain_pending_commits_fuel 0 drain s = (s, [])"
| "drain_pending_commits_fuel (Suc n) drain s =
     (let next_h = committed_height s + 1 in
      case hm_get (pending_commits s) next_h of
        None \<Rightarrow> (s, [])
      | Some (h, qc) \<Rightarrow>
          let r = on_block_ready_to_commit_with drain h qc
                    (s\<lparr>pending_commits := hm_remove next_h (pending_commits s)\<rparr>)
          in if committed_height (fst r) < next_h then r
             else then_do r (drain_pending_commits_fuel n drain))"

definition drain_pending_commits_with ::
    "(bft_state \<Rightarrow> bft_state \<times> action list) \<Rightarrow> bft_state \<Rightarrow> bft_state \<times> action list" where
  "drain_pending_commits_with drain s =
     drain_pending_commits_fuel (Suc (hm_len (pending_commits s))) drain s"

section \<open>Synced blocks\<close>

text \<open>The first part of \<open>apply_synced_block\<close>: the committed state, the QCs learnt, the cleanup, the actions.\<close>

definition adopt_synced_block :: "crypto_env \<Rightarrow> block \<Rightarrow> quorum_certificate \<Rightarrow> bft_state \<Rightarrow> bft_state" where
  "adopt_synced_block E b qc s =
     (let s1 = s\<lparr>committed_height := bl_height b, committed_hash := block_hash E b,
                 last_chain_committed_state_version := hd_state_version (bl_header b),
                 view_at_height_start := view s\<rparr>;
          s2 = adopt_qc qc s1;
          parent_qc = hd_parent_qc (bl_header b)
      in if \<not> qc_is_genesis parent_qc then adopt_qc parent_qc s2 else s2)"

definition commit_synced_block :: "crypto_env \<Rightarrow> block \<Rightarrow> quorum_certificate \<Rightarrow> bft_state
    \<Rightarrow> bft_state \<times> action list" where
  "commit_synced_block E b qc s =
     (let (s1, removed) = cleanup_old_state (bl_height b) (adopt_synced_block E b qc s)
      in (s1, [PersistBlock b qc, EmitCommittedBlock b,
               EnqueueInternal (BlockCommitted (block_hash E b) (bl_height b) b)] @ map CancelFetch removed))"

definition apply_synced_block_with ::
    "(bft_state \<Rightarrow> bft_state \<times> action list) \<Rightarrow> crypto_env \<Rightarrow> block \<Rightarrow> quorum_certificate \<Rightarrow> bft_state
     \<Rightarrow> bft_state \<times> action list" where
  "apply_synced_block_with drain E b qc s =
     then_do (commit_synced_block E b qc s) (drain_pending_commits_with drain)"

definition submit_synced_block_with ::
    "(bft_state \<Rightarrow> bft_state \<times> action list) \<Rightarrow> crypto_env \<Rightarrow> block \<Rightarrow> quorum_certificate \<Rightarrow> bft_state
     \<Rightarrow> bft_state \<times> action list" where
  "submit_synced_block_with drain E b qc s =
     (if qc_is_genesis qc then apply_synced_block_with drain E b qc s
      else case collect_qc_signer_keys s of
        None \<Rightarrow> (s, [])
      | Some public_keys \<Rightarrow>
          (s\<lparr>pending_synced_block_verifications := hm_insert (block_hash E b)
               \<lparr>ps_block = b, ps_qc = qc, ps_verified = False\<rparr> (pending_synced_block_verifications s)\<rparr>,
           [VerifyQcSignature qc public_keys (block_hash E b)
              (block_vote_message (shard_group s) (qc_height qc) (qc_round qc) (qc_block_hash qc))]))"

definition MAX_PARALLEL_SYNC_VERIFICATIONS :: usize where
  "MAX_PARALLEL_SYNC_VERIFICATIONS = 16"

definition highest_pending_height :: "bft_state \<Rightarrow> u64" where
  "highest_pending_height s =
     (case map (\<lambda>p. bl_height (ps_block p)) (hm_values (pending_synced_block_verifications s)) of
        [] \<Rightarrow> committed_height s
      | x # xs \<Rightarrow> fold max xs x)"

text \<open>The \<open>while\<close> loop of \<open>try_drain_buffered_synced_blocks\<close>, over the free slots.\<close>

primrec submit_buffered :: "(bft_state \<Rightarrow> bft_state \<times> action list) \<Rightarrow> crypto_env \<Rightarrow> nat \<Rightarrow> u64 \<Rightarrow> bft_state
    \<Rightarrow> bft_state \<times> action list" where
  "submit_buffered drain E 0 next_h s = (s, [])"
| "submit_buffered drain E (Suc n) next_h s =
     (case hm_get (buffered_synced_blocks s) next_h of
        None \<Rightarrow> (s, [])
      | Some (b, qc) \<Rightarrow>
          then_do (submit_synced_block_with drain E b qc
                    (s\<lparr>buffered_synced_blocks := hm_remove next_h (buffered_synced_blocks s)\<rparr>))
            (submit_buffered drain E n (next_h + 1)))"

definition try_drain_step :: "(bft_state \<Rightarrow> bft_state \<times> action list) \<Rightarrow> crypto_env \<Rightarrow> bft_state
    \<Rightarrow> bft_state \<times> action list" where
  "try_drain_step drain E s =
     (let pending_count = hm_len (pending_synced_block_verifications s) in
      if pending_count \<ge> MAX_PARALLEL_SYNC_VERIFICATIONS then (s, [])
      else submit_buffered drain E (MAX_PARALLEL_SYNC_VERIFICATIONS - pending_count)
             (max (highest_pending_height s) (committed_height s) + 1) s)"

primrec try_drain_fuel :: "nat \<Rightarrow> crypto_env \<Rightarrow> bft_state \<Rightarrow> bft_state \<times> action list" where
  "try_drain_fuel 0 E s = (s, [])"
| "try_drain_fuel (Suc n) E s = try_drain_step (try_drain_fuel n E) E s"

definition try_drain_buffered_synced_blocks :: "crypto_env \<Rightarrow> bft_state \<Rightarrow> bft_state \<times> action list" where
  "try_drain_buffered_synced_blocks E s = try_drain_fuel (Suc (hm_len (buffered_synced_blocks s))) E s"

text \<open>The methods as the code has them.\<close>

definition commit_block_and_buffered :: "crypto_env \<Rightarrow> hash \<Rightarrow> bft_state \<Rightarrow> bft_state \<times> action list" where
  "commit_block_and_buffered E = commit_block_and_buffered_with (try_drain_buffered_synced_blocks E)"

definition on_block_ready_to_commit :: "crypto_env \<Rightarrow> hash \<Rightarrow> quorum_certificate \<Rightarrow> bft_state
    \<Rightarrow> bft_state \<times> action list" where
  "on_block_ready_to_commit E = on_block_ready_to_commit_with (try_drain_buffered_synced_blocks E)"

definition try_commit_pending_data :: "crypto_env \<Rightarrow> hash \<Rightarrow> bft_state \<Rightarrow> bft_state \<times> action list" where
  "try_commit_pending_data E h s =
     (case hm_get (pending_commits_awaiting_data s) h of
        Some (_, qc) \<Rightarrow> on_block_ready_to_commit E h qc
          (s\<lparr>pending_commits_awaiting_data := hm_remove h (pending_commits_awaiting_data s)\<rparr>)
      | None \<Rightarrow> (s, []))"

definition drain_pending_commits :: "crypto_env \<Rightarrow> bft_state \<Rightarrow> bft_state \<times> action list" where
  "drain_pending_commits E = drain_pending_commits_with (try_drain_buffered_synced_blocks E)"

definition apply_synced_block :: "crypto_env \<Rightarrow> block \<Rightarrow> quorum_certificate \<Rightarrow> bft_state
    \<Rightarrow> bft_state \<times> action list" where
  "apply_synced_block E = apply_synced_block_with (try_drain_buffered_synced_blocks E) E"

definition submit_synced_block_for_verification :: "crypto_env \<Rightarrow> block \<Rightarrow> quorum_certificate \<Rightarrow> bft_state
    \<Rightarrow> bft_state \<times> action list" where
  "submit_synced_block_for_verification E = submit_synced_block_with (try_drain_buffered_synced_blocks E) E"

definition on_synced_block_ready :: "crypto_env \<Rightarrow> block \<Rightarrow> quorum_certificate \<Rightarrow> bft_state
    \<Rightarrow> bft_state \<times> action list" where
  "on_synced_block_ready E b qc s =
     (let h = block_hash E b; height = bl_height b; next_needed = committed_height s + 1 in
      if height \<le> committed_height s then (s, [])
      else if qc_block_hash qc \<noteq> h then (s, [])
      else if hm_contains (pending_synced_block_verifications s) h then (s, [])
      else if hm_contains (buffered_synced_blocks s) height then (s, [])
      else if height = next_needed then submit_synced_block_for_verification E b qc s
      else if height > next_needed then
        try_drain_buffered_synced_blocks E
          (s\<lparr>buffered_synced_blocks := hm_insert height (b, qc) (buffered_synced_blocks s)\<rparr>)
      else (s, []))"

definition on_sync_block_ready_to_apply :: "crypto_env \<Rightarrow> block \<Rightarrow> quorum_certificate \<Rightarrow> bft_state
    \<Rightarrow> bft_state \<times> action list" where
  "on_sync_block_ready_to_apply E b qc s =
     (if bl_height b \<le> committed_height s then (s, []) else on_synced_block_ready E b qc s)"

section \<open>The cycle ends\<close>

text \<open>
  Three sizes bound the cycle: the buffered synced blocks, the pending commits, and the
  buffered synced blocks together with those in verification.
\<close>

abbreviation buffered_len :: "bft_state \<Rightarrow> nat" where
  "buffered_len s \<equiv> hm_len (buffered_synced_blocks s)"

abbreviation commits_len :: "bft_state \<Rightarrow> nat" where
  "commits_len s \<equiv> hm_len (pending_commits s)"

abbreviation synced_len :: "bft_state \<Rightarrow> nat" where
  "synced_len s \<equiv> hm_len (pending_synced_block_verifications s) + buffered_len s"

definition no_larger :: "bft_state \<Rightarrow> bft_state \<Rightarrow> bool" where
  "no_larger s' s \<longleftrightarrow> buffered_len s' \<le> buffered_len s \<and> commits_len s' \<le> commits_len s
     \<and> synced_len s' \<le> synced_len s"

definition shrinks :: "(bft_state \<Rightarrow> bft_state \<times> action list) \<Rightarrow> bool" where
  "shrinks f \<longleftrightarrow> (\<forall>s. no_larger (fst (f s)) s)"

lemma no_larger_refl [simp]: "no_larger s s"
  by (simp add: no_larger_def)

lemma no_larger_trans: "no_larger s2 s1 \<Longrightarrow> no_larger s1 s \<Longrightarrow> no_larger s2 s"
  by (simp add: no_larger_def)

lemma no_larger_commit_side: "commit_side s' = commit_side s \<Longrightarrow> no_larger s' s"
  by (simp add: no_larger_def commit_side_def)

lemma no_larger_cleanup: "no_larger (fst (cleanup_old_state c s)) s"
  by (simp add: no_larger_def cleanup_old_state_def Let_def hm_len_retain add_mono)

lemma no_larger_set_committed:
  "no_larger s' (s\<lparr>committed_height := c, committed_hash := h, last_chain_committed_state_version := v,
      view_at_height_start := w\<rparr>) \<longleftrightarrow> no_larger s' s"
  by (simp add: no_larger_def)

lemma no_larger_commit_one: "no_larger (fst (commit_one h b s)) s"
proof -
  have "no_larger (fst (cleanup_old_state c (record_leader_activity s'))) s'" for c s'
    by (rule no_larger_trans [OF no_larger_cleanup no_larger_commit_side]) simp
  then show ?thesis
    using no_larger_set_committed by (simp add: commit_one_def Let_def split_beta) blast
qed

lemma no_larger_remove_commit: "no_larger (s\<lparr>pending_commits := hm_remove k (pending_commits s)\<rparr>) s"
  by (simp add: no_larger_def hm_len_remove_le)

text \<open>Induction over the turns of \<open>commit_loop\<close>, on the result it returns.\<close>

lemma commit_loop_rule:
  assumes stop: "\<And>h s. P h s (s, [])"
    and last: "\<And>h b s. commit_lookup s h = Some b \<Longrightarrow> bl_height b = committed_height s + 1
      \<Longrightarrow> P h s (commit_one h b s)"
    and more: "\<And>h b s h' qc s1 r. commit_lookup s h = Some b \<Longrightarrow> bl_height b = committed_height s + 1
      \<Longrightarrow> hm_get (pending_commits s) (bl_height b + 1) = Some (h', qc)
      \<Longrightarrow> s1 = (fst (commit_one h b s))\<lparr>pending_commits := hm_remove (bl_height b + 1) (pending_commits s)\<rparr>
      \<Longrightarrow> P h' s1 r \<Longrightarrow> P h s (then_do (commit_one h b s) (\<lambda>_. r))"
  shows "P h s (commit_loop h s)"
proof (induction h s rule: commit_loop.induct)
  case (1 h s)
  show ?case
  proof (cases "\<exists>b. commit_lookup s h = Some b \<and> bl_height b = committed_height s + 1")
    case False
    then show ?thesis using stop by (subst commit_loop.simps) (auto split: option.split)
  next
    case True
    then obtain b where b: "commit_lookup s h = Some b" "bl_height b = committed_height s + 1" by blast
    define n where "n = bl_height b + 1"
    define r where "r = commit_one h b s"
    have pc: "pending_commits (fst r) = pending_commits s" by (simp add: r_def pending_commits_commit_one)
    show ?thesis
    proof (cases "hm_get (pending_commits s) n")
      case None
      then have "commit_loop h s = r"
        using b pc unfolding n_def by (subst commit_loop.simps) (simp add: Let_def r_def)
      then show ?thesis using last [OF b] by (simp add: r_def)
    next
      case (Some e)
      obtain nh q where e: "e = (nh, q)" by force
      let ?s1 = "(fst r)\<lparr>pending_commits := hm_remove n (pending_commits (fst r))\<rparr>"
      have eq: "commit_loop h s = then_do r (\<lambda>_. commit_loop nh ?s1)"
        using b Some e pc unfolding n_def
        by (subst commit_loop.simps) (simp add: Let_def r_def pending_commits_commit_one)
      have "P nh ?s1 (commit_loop nh ?s1)"
        by (rule "1" [OF b(1) _ r_def n_def _ e [symmetric]]) (use b(2) Some pc in simp_all)
      then have "P h s (then_do (commit_one h b s) (\<lambda>_. commit_loop nh ?s1))"
        by (rule more [OF b, rotated 2]) (use Some e in \<open>simp_all add: r_def n_def pending_commits_commit_one\<close>)
      then show ?thesis by (simp add: eq r_def)
    qed
  qed
qed

lemma no_larger_commit_loop: "no_larger (fst (commit_loop h s)) s"
proof (rule commit_loop_rule [of "\<lambda>_ s r. no_larger (fst r) s"])
  fix h b s h' qc s1 and r :: "bft_state \<times> action list"
  assume s1: "s1 = (fst (commit_one h b s))\<lparr>pending_commits := hm_remove (bl_height b + 1) (pending_commits s)\<rparr>"
    and r: "no_larger (fst r) s1"
  have "no_larger s1 (fst (commit_one h b s))"
    by (simp add: s1 no_larger_def pending_commits_commit_one hm_len_remove_le)
  then have "no_larger s1 s" using no_larger_trans no_larger_commit_one by blast
  then show "no_larger (fst (then_do (commit_one h b s) (\<lambda>_. r))) s"
    using no_larger_trans [OF r] by (simp add: then_do_simps)
qed (simp_all add: no_larger_commit_one)

lemma no_larger_commit_with:
  "shrinks d \<Longrightarrow> no_larger (fst (commit_block_and_buffered_with d h s)) s"
  unfolding commit_block_and_buffered_with_def then_do_simps shrinks_def
  using no_larger_trans no_larger_commit_loop by blast

text \<open>
  \<open>on_block_ready_to_commit\<close> either enlarges nothing or buffers one commit; then it has not
  moved the committed height, which lies below the next one.
\<close>

lemma block_ready_sizes:
  assumes "shrinks d"
  shows "no_larger (fst (on_block_ready_to_commit_with d h qc s)) s
    \<or> (\<exists>k. fst (on_block_ready_to_commit_with d h qc s)
           = s\<lparr>pending_commits := hm_insert k (h, qc) (pending_commits s)\<rparr> \<and> committed_height s < committed_height s + 1)"
proof -
  have "(c :: u64) < k \<Longrightarrow> c < c + 1" for c k by unat_arith
  then show ?thesis
    unfolding on_block_ready_to_commit_with_def Let_def
    using no_larger_commit_with [OF assms] by (auto simp: no_larger_def not_le split: option.split)
qed

lemma commits_len_insert: "hm_len (hm_insert k v m) \<le> Suc (hm_len m)"
  by (simp add: hm_len_insert)

lemma drain_fuel_sizes: "shrinks d \<Longrightarrow> no_larger (fst (drain_pending_commits_fuel n d s)) s"
proof (induction n arbitrary: s)
  case (Suc n)
  show ?case
  proof (cases "hm_get (pending_commits s) (committed_height s + 1)")
    case (Some e)
    obtain h qc where e: "e = (h, qc)" by force
    define s1 where "s1 = s\<lparr>pending_commits := hm_remove (committed_height s + 1) (pending_commits s)\<rparr>"
    define r where "r = on_block_ready_to_commit_with d h qc s1"
    have s1: "no_larger s1 s" "Suc (commits_len s1) \<le> commits_len s" "committed_height s1 = committed_height s"
      using Some no_larger_remove_commit by (auto simp: s1_def hm_len_remove_less Suc_leI)
    have eq: "drain_pending_commits_fuel (Suc n) d s = (if committed_height (fst r) < committed_height s + 1
        then r else then_do r (drain_pending_commits_fuel n d))"
      using Some e by (simp add: r_def s1_def Let_def)
    consider "no_larger (fst r) s1" | k where "fst r = s1\<lparr>pending_commits := hm_insert k (h, qc) (pending_commits s1)\<rparr>"
        "committed_height s < committed_height s + 1"
      using block_ready_sizes [OF Suc.prems, of h qc s1] s1(3) by (auto simp: r_def)
    then show ?thesis
    proof cases
      case 1
      then show ?thesis
        using eq Suc.IH [OF Suc.prems] s1(1) no_larger_trans by (auto simp: then_do_simps) blast+
    next
      case (2 k)
      have "no_larger (fst r) s"
        using 2(1) s1 commits_len_insert [of k "(h, qc)" "pending_commits s1"] by (simp add: no_larger_def)
      then show ?thesis using eq 2 s1(3) by simp
    qed
  qed simp
qed simp

lemma commit_side_adopt_synced:
  "commit_side (adopt_synced_block E b qc s) =
     commit_side (s\<lparr>committed_height := bl_height b, committed_hash := block_hash E b\<rparr>)"
proof -
  have "commit_side (s\<lparr>committed_height := c, committed_hash := h, last_chain_committed_state_version := v,
      view_at_height_start := w\<rparr>) = commit_side (s\<lparr>committed_height := c, committed_hash := h\<rparr>)" for c h v w
    by (simp add: commit_side_def)
  then show ?thesis by (simp add: adopt_synced_block_def Let_def)
qed

lemma no_larger_commit_synced: "no_larger (fst (commit_synced_block E b qc s)) s"
proof -
  have "no_larger (adopt_synced_block E b qc s) (s\<lparr>committed_height := bl_height b, committed_hash := block_hash E b\<rparr>)"
    by (rule no_larger_commit_side [OF commit_side_adopt_synced])
  then have "no_larger (adopt_synced_block E b qc s) s" by (simp add: no_larger_def)
  then show ?thesis
    by (simp add: commit_synced_block_def split_beta no_larger_trans [OF no_larger_cleanup])
qed

lemma apply_synced_sizes: "shrinks d \<Longrightarrow> no_larger (fst (apply_synced_block_with d E b qc s)) s"
  unfolding apply_synced_block_with_def then_do_simps drain_pending_commits_with_def
  by (rule no_larger_trans [OF drain_fuel_sizes no_larger_commit_synced])

lemma submit_sizes:
  "shrinks d \<Longrightarrow> buffered_len (fst (submit_synced_block_with d E b qc s)) \<le> buffered_len s
     \<and> commits_len (fst (submit_synced_block_with d E b qc s)) \<le> commits_len s
     \<and> synced_len (fst (submit_synced_block_with d E b qc s)) \<le> Suc (synced_len s)"
  using apply_synced_sizes [of d E b qc s]
  by (auto simp: submit_synced_block_with_def no_larger_def commits_len_insert split: option.split)

lemma submit_buffered_sizes: "shrinks d \<Longrightarrow> no_larger (fst (submit_buffered d E n k s)) s"
proof (induction n arbitrary: k s)
  case (Suc n)
  show ?case
  proof (cases "hm_get (buffered_synced_blocks s) k")
    case (Some e)
    obtain b qc where e: "e = (b, qc)" by force
    let ?s1 = "s\<lparr>buffered_synced_blocks := hm_remove k (buffered_synced_blocks s)\<rparr>"
    have "Suc (buffered_len ?s1) \<le> buffered_len s" using Some by (simp add: hm_len_remove_less Suc_leI)
    then have "no_larger (fst (submit_synced_block_with d E b qc ?s1)) s"
      using submit_sizes [OF Suc.prems, of E b qc ?s1] by (simp add: no_larger_def)
    then show ?thesis
      using Some e no_larger_trans [OF Suc.IH [OF Suc.prems]] by (simp add: then_do_simps)
  qed simp
qed simp

lemma try_drain_step_sizes: "shrinks d \<Longrightarrow> shrinks (try_drain_step d E)"
  unfolding shrinks_def [of "try_drain_step d E"]
  by (simp add: try_drain_step_def Let_def submit_buffered_sizes)

lemma try_drain_fuel_shrinks: "shrinks (try_drain_fuel n E)"
proof (induction n)
  case 0
  then show ?case by (simp add: shrinks_def)
next
  case (Suc n)
  have "try_drain_fuel (Suc n) E = try_drain_step (try_drain_fuel n E) E" by auto
  then show ?case using try_drain_step_sizes [OF Suc] by (simp only:)
qed


text \<open>Two drains that agree on every state with fewer than \<open>n\<close> buffered blocks.\<close>

definition agree_below where
  "agree_below n d1 d2 \<longleftrightarrow> (\<forall>s. buffered_len s < n \<longrightarrow> d1 s = d2 s)"

lemma block_ready_cong:
  assumes "agree_below n d1 d2" "buffered_len s < n"
  shows "on_block_ready_to_commit_with d1 h qc s = on_block_ready_to_commit_with d2 h qc s"
proof -
  have "buffered_len (fst (commit_loop h s)) < n"
    using no_larger_commit_loop [of h s] assms(2) by (simp add: no_larger_def)
  then have "commit_block_and_buffered_with d1 h s = commit_block_and_buffered_with d2 h s"
    using assms(1) by (simp add: commit_block_and_buffered_with_def then_do_def agree_below_def split_beta)
  then show ?thesis by (simp add: on_block_ready_to_commit_with_def Let_def split: option.split)
qed

lemma then_do_cong: "r = r' \<Longrightarrow> f (fst r') = g (fst r') \<Longrightarrow> then_do r f = then_do r' g"
  by (simp add: then_do_def split_beta)

lemma block_ready_buffered:
  "shrinks d \<Longrightarrow> buffered_len (fst (on_block_ready_to_commit_with d h qc s)) \<le> buffered_len s"
  using block_ready_sizes [of d h qc s] by (auto simp: no_larger_def)

lemma drain_fuel_cong:
  assumes "agree_below n d1 d2" "shrinks d2"
  shows "buffered_len s < n \<Longrightarrow> drain_pending_commits_fuel k d1 s = drain_pending_commits_fuel k d2 s"
proof (induction k arbitrary: s)
  case (Suc k)
  let ?s1 = "s\<lparr>pending_commits := hm_remove (committed_height s + 1) (pending_commits s)\<rparr>"
  have "buffered_len ?s1 < n" using Suc.prems by simp
  then have eq: "on_block_ready_to_commit_with d1 h qc ?s1 = on_block_ready_to_commit_with d2 h qc ?s1" for h qc
    by (rule block_ready_cong [OF assms(1)])
  have "buffered_len (fst (on_block_ready_to_commit_with d2 h qc ?s1)) < n" for h qc
    using block_ready_buffered [OF assms(2), of h qc ?s1] Suc.prems by simp
  then have "then_do (on_block_ready_to_commit_with d2 h qc ?s1) (drain_pending_commits_fuel k d1)
      = then_do (on_block_ready_to_commit_with d2 h qc ?s1) (drain_pending_commits_fuel k d2)" for h qc
    by (intro then_do_cong refl Suc.IH)
  then show ?case using eq by (simp add: Let_def split: option.split)
qed simp

lemma submit_cong:
  assumes "agree_below n d1 d2" "shrinks d2" "buffered_len s < n"
  shows "submit_synced_block_with d1 E b qc s = submit_synced_block_with d2 E b qc s"
proof -
  have "buffered_len (fst (commit_synced_block E b qc s)) < n"
    using no_larger_commit_synced [of E b qc s] assms(3) by (simp add: no_larger_def)
  then have "apply_synced_block_with d1 E b qc s = apply_synced_block_with d2 E b qc s"
    unfolding apply_synced_block_with_def drain_pending_commits_with_def
    by (intro then_do_cong refl drain_fuel_cong [OF assms(1,2)])
  then show ?thesis by (simp add: submit_synced_block_with_def)
qed

lemma submit_buffered_cong:
  assumes "agree_below n d1 d2" "shrinks d2"
  shows "buffered_len s \<le> n \<Longrightarrow> submit_buffered d1 E k h s = submit_buffered d2 E k h s"
proof (induction k arbitrary: h s)
  case (Suc k)
  show ?case
  proof (cases "hm_get (buffered_synced_blocks s) h")
    case (Some e)
    obtain b qc where e: "e = (b, qc)" by force
    let ?s1 = "s\<lparr>buffered_synced_blocks := hm_remove h (buffered_synced_blocks s)\<rparr>"
    have less: "buffered_len ?s1 < n" using Suc.prems hm_len_remove_less [OF Some] by simp
    have "buffered_len (fst (submit_synced_block_with d2 E b qc ?s1)) \<le> n"
      using submit_sizes [OF assms(2), of E b qc ?s1] less by linarith
    then have "then_do (submit_synced_block_with d1 E b qc ?s1) (submit_buffered d1 E k (h + 1))
        = then_do (submit_synced_block_with d2 E b qc ?s1) (submit_buffered d2 E k (h + 1))"
      by (intro then_do_cong submit_cong [OF assms less] Suc.IH)
    then show ?thesis using Some e by simp
  qed simp
qed simp

lemma try_drain_step_cong:
  "agree_below n d1 d2 \<Longrightarrow> shrinks d2 \<Longrightarrow> buffered_len s \<le> n \<Longrightarrow> try_drain_step d1 E s = try_drain_step d2 E s"
  by (simp add: try_drain_step_def Let_def submit_buffered_cong)

lemma try_drain_fuel_enough:
  "buffered_len s < n \<Longrightarrow> buffered_len s < m \<Longrightarrow> try_drain_fuel n E s = try_drain_fuel m E s"
proof (induction n arbitrary: m s)
  case (Suc n)
  obtain m' where m: "m = Suc m'" using Suc.prems by (cases m) auto
  have "agree_below (buffered_len s) (try_drain_fuel n E) (try_drain_fuel m' E)"
    unfolding agree_below_def by (intro allI impI Suc.IH) (use Suc.prems m in simp_all)
  then have "try_drain_step (try_drain_fuel n E) E s = try_drain_step (try_drain_fuel m' E) E s"
    by (rule try_drain_step_cong [OF _ try_drain_fuel_shrinks order_refl])
  then show ?case by (simp add: m)
qed simp

lemma try_drain_shrinks: "shrinks (try_drain_buffered_synced_blocks E)"
  using try_drain_fuel_shrinks unfolding shrinks_def try_drain_buffered_synced_blocks_def by blast

lemma try_drain_unfold:
  "try_drain_buffered_synced_blocks E s = try_drain_step (try_drain_buffered_synced_blocks E) E s"
proof -
  have "agree_below (buffered_len s) (try_drain_fuel (buffered_len s) E) (try_drain_buffered_synced_blocks E)"
    unfolding agree_below_def try_drain_buffered_synced_blocks_def
    by (intro allI impI try_drain_fuel_enough) simp_all
  then have "try_drain_step (try_drain_fuel (buffered_len s) E) E s
      = try_drain_step (try_drain_buffered_synced_blocks E) E s"
    by (rule try_drain_step_cong [OF _ try_drain_shrinks order_refl])
  then show ?thesis by (simp add: try_drain_buffered_synced_blocks_def)
qed

lemma try_drain_idle:
  "hm_get (buffered_synced_blocks s) (max (highest_pending_height s) (committed_height s) + 1) = None \<Longrightarrow>
   try_drain_buffered_synced_blocks E s = (s, [])"
proof -
  assume a: "hm_get (buffered_synced_blocks s) (max (highest_pending_height s) (committed_height s) + 1) = None"
  have "submit_buffered d E n (max (highest_pending_height s) (committed_height s) + 1) s = (s, [])" for d n
    using a by (cases n) simp_all
  then show ?thesis by (subst try_drain_unfold) (simp add: try_drain_step_def Let_def)
qed

lemma drain_fuel_enough:
  assumes "shrinks d"
  shows "commits_len s < n \<Longrightarrow> commits_len s < m
    \<Longrightarrow> drain_pending_commits_fuel n d s = drain_pending_commits_fuel m d s"
proof (induction n arbitrary: m s)
  case (Suc n)
  obtain m' where m: "m = Suc m'" using Suc.prems by (cases m) auto
  show ?case
  proof (cases "hm_get (pending_commits s) (committed_height s + 1)")
    case (Some e)
    obtain h qc where e: "e = (h, qc)" by force
    define s1 where "s1 = s\<lparr>pending_commits := hm_remove (committed_height s + 1) (pending_commits s)\<rparr>"
    define r where "r = on_block_ready_to_commit_with d h qc s1"
    have less: "commits_len s1 < commits_len s" using hm_len_remove_less [OF Some] by (simp add: s1_def)
    have "then_do r (drain_pending_commits_fuel n d) = then_do r (drain_pending_commits_fuel m' d)"
      if "\<not> committed_height (fst r) < committed_height s + 1"
    proof -
      have "committed_height s1 = committed_height s" by (simp add: s1_def)
      then have "no_larger (fst r) s1"
        using block_ready_sizes [OF assms, of h qc s1] that by (auto simp: r_def)
      then show ?thesis using less Suc.prems m
        by (intro then_do_cong refl Suc.IH) (auto simp: no_larger_def)
    qed
    then show ?thesis
      using Some e unfolding m by (simp add: Let_def r_def [symmetric] s1_def [symmetric])
  qed (simp add: m)
qed simp

text \<open>The fuel-free equation of the loop of \<open>drain_pending_commits\<close>.\<close>

lemma drain_pending_commits_unfold:
  "drain_pending_commits E s =
     (case hm_get (pending_commits s) (committed_height s + 1) of
        None \<Rightarrow> (s, [])
      | Some (h, qc) \<Rightarrow>
          let r = on_block_ready_to_commit E h qc
                (s\<lparr>pending_commits := hm_remove (committed_height s + 1) (pending_commits s)\<rparr>)
          in if committed_height (fst r) < committed_height s + 1 then r
             else then_do r (drain_pending_commits E))"
proof (cases "hm_get (pending_commits s) (committed_height s + 1)")
  case None
  then show ?thesis by (simp add: drain_pending_commits_def drain_pending_commits_with_def)
next
  case (Some e)
  obtain h qc where e: "e = (h, qc)" by force
  let ?d = "try_drain_buffered_synced_blocks E"
  define s1 where "s1 = s\<lparr>pending_commits := hm_remove (committed_height s + 1) (pending_commits s)\<rparr>"
  define r where "r = on_block_ready_to_commit E h qc s1"
  have "commits_len s1 < commits_len s" using hm_len_remove_less [OF Some] by (simp add: s1_def)
  moreover have "committed_height s1 = committed_height s" by (simp add: s1_def)
  ultimately have "commits_len (fst r) < commits_len s" if "\<not> committed_height (fst r) < committed_height s + 1"
    using block_ready_sizes [OF try_drain_shrinks, of E h qc s1] that
    by (auto simp: r_def on_block_ready_to_commit_def no_larger_def)
  then have "then_do r (drain_pending_commits_fuel (commits_len s) ?d) = then_do r (drain_pending_commits E)"
    if "\<not> committed_height (fst r) < committed_height s + 1"
    using that unfolding drain_pending_commits_def drain_pending_commits_with_def
    by (intro then_do_cong refl drain_fuel_enough [OF try_drain_shrinks]) auto
  then show ?thesis
    using Some e unfolding drain_pending_commits_def [of E] drain_pending_commits_with_def
    by (simp add: Let_def r_def [symmetric] s1_def [symmetric] on_block_ready_to_commit_def [symmetric]
        drain_pending_commits_def [symmetric] drain_pending_commits_with_def [symmetric])
qed


section \<open>Applying the verified synced blocks\<close>

definition next_verified :: "bft_state \<Rightarrow> (hash \<times> pending_synced) option" where
  "next_verified s = find (\<lambda>(_, p). ps_verified p \<and> bl_height (ps_block p) = committed_height s + 1)
     (hm_entries (pending_synced_block_verifications s))"

lemma next_verified_Some:
  assumes "next_verified s = Some (h, p)"
  shows "hm_get (pending_synced_block_verifications s) h = Some p" "ps_verified p"
    "bl_height (ps_block p) = committed_height s + 1"
proof -
  have "(h, p) \<in> set (hm_entries (pending_synced_block_verifications s)) \<and> ps_verified p
      \<and> bl_height (ps_block p) = committed_height s + 1"
    using find_in_set [OF assms [unfolded next_verified_def]] by simp
  then show "hm_get (pending_synced_block_verifications s) h = Some p" "ps_verified p"
    "bl_height (ps_block p) = committed_height s + 1" by (auto simp: hm_entries_iff)
qed

lemma apply_synced_block_sizes: "no_larger (fst (apply_synced_block E b qc s)) s"
  by (simp add: apply_synced_block_def apply_synced_sizes try_drain_shrinks)

text \<open>Every turn takes a block out of those in verification, and applying it adds none to the sum.\<close>

function try_apply_loop :: "crypto_env \<Rightarrow> bft_state \<Rightarrow> bft_state \<times> action list" where
  "try_apply_loop E s =
     (case next_verified s of
        None \<Rightarrow> (s, [])
      | Some (h, p) \<Rightarrow>
          let r = apply_synced_block E (ps_block p) (ps_qc p)
                (s\<lparr>pending_synced_block_verifications := hm_remove h (pending_synced_block_verifications s)\<rparr>)
          in then_do r (\<lambda>_. try_apply_loop E (fst r)))"
  by pat_completeness auto
termination
proof (relation "measure (\<lambda>(_, s). synced_len s)")
  fix E e h p r and s :: bft_state
  let ?t = "s\<lparr>pending_synced_block_verifications := hm_remove h (pending_synced_block_verifications s)\<rparr>"
  assume "next_verified s = Some e" "(h, p) = e" and r: "r = apply_synced_block E (ps_block p) (ps_qc p) ?t"
  then have "hm_get (pending_synced_block_verifications s) h = Some p" using next_verified_Some(1) by blast
  then have "synced_len ?t < synced_len s" by (simp add: hm_len_remove_less)
  moreover have "synced_len (fst r) \<le> synced_len ?t"
    unfolding r using apply_synced_block_sizes [of E _ _ ?t] unfolding no_larger_def by blast
  ultimately show "((E, fst r), E, s) \<in> measure (\<lambda>(_, s). synced_len s)" by simp
qed simp

declare try_apply_loop.simps [simp del]

definition try_apply_verified_synced_blocks :: "crypto_env \<Rightarrow> bft_state \<Rightarrow> bft_state \<times> action list" where
  "try_apply_verified_synced_blocks E s = then_do (try_apply_loop E s) (try_drain_buffered_synced_blocks E)"

definition on_qc_signature_verified :: "crypto_env \<Rightarrow> hash \<Rightarrow> bool \<Rightarrow> bft_state \<Rightarrow> bft_state \<times> action list" where
  "on_qc_signature_verified E h valid s =
     (case hm_get (pending_synced_block_verifications s) h of
        Some p \<Rightarrow>
          if \<not> valid then (s\<lparr>pending_synced_block_verifications := hm_empty\<rparr>, [])
          else try_apply_verified_synced_blocks E
                 (s\<lparr>pending_synced_block_verifications := hm_insert h (p\<lparr>ps_verified := True\<rparr>)
                      (hm_remove h (pending_synced_block_verifications s))\<rparr>)
      | None \<Rightarrow>
          (case hm_get (pending_qc_verifications s) h of
             None \<Rightarrow> (s, [])
           | Some header \<Rightarrow>
               let s1 = s\<lparr>pending_qc_verifications := hm_remove h (pending_qc_verifications s)\<rparr> in
               if \<not> valid then (s1\<lparr>pending_blocks := hm_remove h (pending_blocks s1)\<rparr>, [])
               else try_vote_on_block E h (hd_height header) (hd_round header)
                      (s1\<lparr>verified_qcs := hm_insert (qc_block_hash (hd_parent_qc header))
                            (qc_height (hd_parent_qc header)) (verified_qcs s1)\<rparr>)))"

end
