(* ===== verification/Commit_Order.thy ===== *)
theory Commit_Order
  imports Bft_Commit
begin

text \<open>
  The order of commits: every method of the commit and sync paths hands over blocks of
  consecutive heights, starting right above the committed height it began with, and leaves
  the committed height at the last of them.  The invariant that this rests on says what the
  buffers of the two paths hold.
\<close>

section \<open>Blocks are committed one height after the other\<close>

text \<open>The blocks lead from one committed height to another, each exactly one above the last.\<close>

primrec commit_chain :: "u64 \<Rightarrow> block list \<Rightarrow> u64 \<Rightarrow> bool" where
  "commit_chain c [] c' \<longleftrightarrow> c' = c"
| "commit_chain c (b # bs) c' \<longleftrightarrow> bl_height b = c + 1 \<and> c < c + 1 \<and> commit_chain (c + 1) bs c'"

definition commit_wf :: "crypto_env \<Rightarrow> bft_state \<Rightarrow> bool" where
  "commit_wf E s \<longleftrightarrow>
     \<not> hm_contains (pending_commits s) 0
     \<and> (\<forall>k b qc. hm_get (buffered_synced_blocks s) k = Some (b, qc)
          \<longrightarrow> bl_height b = k \<and> committed_height s < k \<and> qc_block_hash qc = block_hash E b)
     \<and> (\<forall>h p. hm_get (pending_synced_block_verifications s) h = Some p
          \<longrightarrow> committed_height s < bl_height (ps_block p) \<and> block_hash E (ps_block p) = h
            \<and> qc_block_hash (ps_qc p) = h)"

definition hash_never_zero :: "crypto_env \<Rightarrow> bool" where
  "hash_never_zero E \<longleftrightarrow> (\<forall>h. header_hash E h \<noteq> Hash_ZERO)"

definition advances :: "crypto_env \<Rightarrow> bft_state \<Rightarrow> bft_state \<times> action list \<Rightarrow> bool" where
  "advances E s r \<longleftrightarrow> (commit_wf E s \<longrightarrow> commit_wf E (fst r)
     \<and> commit_chain (committed_height s) (committed_blocks (snd r)) (committed_height (fst r)))"

lemma commit_chain_append:
  "commit_chain c xs c1 \<Longrightarrow> commit_chain c1 ys c2 \<Longrightarrow> commit_chain c (xs @ ys) c2"
  by (induction xs arbitrary: c) auto

lemma commit_chain_unat: "commit_chain c bs c' \<Longrightarrow> unat c' = unat c + length bs"
proof (induction bs arbitrary: c)
  case (Cons b bs)
  then have "unat c' = unat (c + 1) + length bs" by simp
  moreover have "unat (c + 1) = Suc (unat c)" using Cons.prems by (intro unat_Suc_no_wrap) simp
  ultimately show ?case by simp
qed simp

lemma commit_chain_le: "commit_chain c bs c' \<Longrightarrow> c \<le> c'"
  using commit_chain_unat by (simp add: word_le_nat_alt)

lemma commit_chain_heights: "commit_chain c bs c' \<Longrightarrow> i < length bs \<Longrightarrow> unat (bl_height (bs ! i)) = unat c + Suc i"
proof (induction bs arbitrary: c i)
  case (Cons b bs)
  then have "unat (c + 1) = Suc (unat c)" by (intro unat_Suc_no_wrap) simp
  then show ?case using Cons.prems Cons.IH [of "c + 1"] by (cases i) simp_all
qed simp

lemma succ_nonzero: "(c :: u64) + 1 \<noteq> 0 \<Longrightarrow> c < c + 1"
  by unat_arith

lemma commit_wf_side: "commit_side s' = commit_side s \<Longrightarrow> commit_wf E s' \<longleftrightarrow> commit_wf E s"
  by (simp add: commit_wf_def commit_side_def)

lemma quiet_advances: "quiet s r \<Longrightarrow> advances E s r"
  using commit_wf_side [of "fst r" s E] by (auto simp: quiet_def advances_def) (simp add: commit_side_def)

lemma advances_then:
  assumes "advances E s r" "advances E (fst r) (f (fst r))"
  shows "advances E s (then_do r f)"
  using assms commit_chain_append unfolding advances_def then_do_simps committed_blocks_append by metis

lemma advances_trans:
  "(commit_wf E s \<Longrightarrow> commit_wf E s1) \<Longrightarrow> committed_height s1 = committed_height s
    \<Longrightarrow> advances E s1 r \<Longrightarrow> advances E s r"
  by (simp add: advances_def)

lemma advances_refl: "advances E s (s, [])"
  by (simp add: advances_def)

lemma commit_wf_cleanup:
  assumes "commit_wf E s" "commit_side t = commit_side (s\<lparr>committed_height := c, committed_hash := h\<rparr>)"
  shows "commit_wf E (fst (cleanup_old_state c t)) \<and> committed_height (fst (cleanup_old_state c t)) = c"
  using assms by (auto simp: commit_wf_def commit_side_def cleanup_old_state_def Let_def split: option.splits if_splits)

lemma advances_commit_one:
  assumes "bl_height b = committed_height s + 1" "committed_height s < committed_height s + 1"
  shows "advances E s (commit_one h b s)"
proof -
  define s1 where "s1 = record_leader_activity (s\<lparr>committed_height := bl_height b, committed_hash := h,
     last_chain_committed_state_version := hd_state_version (bl_header b), view_at_height_start := view s\<rparr>)"
  have "commit_side s1 = commit_side (s\<lparr>committed_height := bl_height b, committed_hash := h\<rparr>)"
    by (simp add: s1_def) (simp add: commit_side_def)
  then show ?thesis
    using commit_wf_cleanup [where E = E and s = s and t = s1 and c = "bl_height b" and h = h] assms
    unfolding commit_one_def Let_def s1_def [symmetric] by (simp add: advances_def split_beta)
qed

lemma advances_commit_loop:
  "committed_height s < committed_height s + 1 \<longrightarrow> advances E s (commit_loop h s)"
proof (rule commit_loop_rule [of "\<lambda>h s r. committed_height s < committed_height s + 1 \<longrightarrow> advances E s r"])
  fix h b s h' qc s1 and r :: "bft_state \<times> action list"
  assume b: "bl_height b = committed_height s + 1"
    and buf: "hm_get (pending_commits s) (bl_height b + 1) = Some (h', qc)"
    and s1: "s1 = (fst (commit_one h b s))\<lparr>pending_commits := hm_remove (bl_height b + 1) (pending_commits s)\<rparr>"
    and r: "committed_height s1 < committed_height s1 + 1 \<longrightarrow> advances E s1 r"
  show "committed_height s < committed_height s + 1 \<longrightarrow> advances E s (then_do (commit_one h b s) (\<lambda>_. r))"
  proof (rule impI, unfold advances_def [of E s "then_do (commit_one h b s) (\<lambda>_. r)"], rule impI)
    assume "committed_height s < committed_height s + 1" and wf: "commit_wf E s"
    then have one: "advances E s (commit_one h b s)" using b by (simp add: advances_commit_one)
    have h1: "committed_height (fst (commit_one h b s)) = bl_height b"
      by (simp add: commit_one_def cleanup_old_state_def record_leader_activity_def Let_def)
    have "bl_height b + 1 \<noteq> 0"
    proof
      assume "bl_height b + 1 = 0"
      then have "hm_contains (pending_commits s) 0" using buf by (simp add: hm_contains_def)
      then show False using wf by (simp add: commit_wf_def)
    qed
    then have less: "committed_height s1 < committed_height s1 + 1"
      unfolding s1 by (simp add: h1 succ_nonzero)
    have fst: "commit_wf E (fst (commit_one h b s))"
      "commit_chain (committed_height s) (committed_blocks (snd (commit_one h b s))) (bl_height b)"
      using one wf h1 by (auto simp: advances_def)
    have "commit_wf E s1"
      using fst(1) by (simp add: commit_wf_def s1 pending_commits_commit_one)
    then have "commit_wf E (fst r)" "commit_chain (bl_height b) (committed_blocks (snd r)) (committed_height (fst r))"
      using r less h1 by (simp_all add: advances_def s1)
    then show "commit_wf E (fst (then_do (commit_one h b s) (\<lambda>_. r)))
      \<and> commit_chain (committed_height s) (committed_blocks (snd (then_do (commit_one h b s) (\<lambda>_. r))))
           (committed_height (fst (then_do (commit_one h b s) (\<lambda>_. r))))"
      unfolding then_do_simps committed_blocks_append using commit_chain_append [OF fst(2)] by simp
  qed
qed (simp_all add: advances_refl advances_commit_one)

lemma advances_block_ready:
  assumes d: "\<And>s. advances E s (d s)"
  shows "advances E s (on_block_ready_to_commit_with d h qc s)"
proof (cases "commit_lookup s h")
  case None
  have "quiet s (on_block_ready_to_commit_with d h qc s)"
    unfolding on_block_ready_to_commit_with_def Let_def
    using None by (simp add: quiet_def commit_side_def split: option.split)
  then show ?thesis by (rule quiet_advances)
next
  case (Some b)
  consider "bl_height b \<le> committed_height s"
    | "committed_height s < bl_height b" "bl_height b \<noteq> committed_height s + 1"
    | "committed_height s < bl_height b" "bl_height b = committed_height s + 1" by force
  then show ?thesis
  proof cases
    case 1
    then show ?thesis using Some by (simp add: on_block_ready_to_commit_with_def advances_refl)
  next
    case 2
    then have "bl_height b \<noteq> 0" by auto
    then show ?thesis
      using Some 2 by (auto simp: on_block_ready_to_commit_with_def advances_def commit_wf_def Let_def)
  next
    case 3
    then have "advances E s (commit_loop h s)" using advances_commit_loop by simp
    then show ?thesis
      using Some 3 d by (simp add: on_block_ready_to_commit_with_def commit_block_and_buffered_with_def
          advances_then advances_refl Let_def)
  qed
qed

lemma commit_wf_remove_commit:
  "commit_wf E s \<Longrightarrow> commit_wf E (s\<lparr>pending_commits := hm_remove k (pending_commits s)\<rparr>)"
  by (simp add: commit_wf_def)

lemma advances_drain_fuel:
  assumes d: "\<And>s. advances E s (d s)"
  shows "advances E s (drain_pending_commits_fuel n d s)"
proof (induction n arbitrary: s)
  case (Suc n)
  define t where "t = s\<lparr>pending_commits := hm_remove (committed_height s + 1) (pending_commits s)\<rparr>"
  have "advances E s (on_block_ready_to_commit_with d h qc t)" for h qc
    by (rule advances_trans [OF _ _ advances_block_ready [OF d]]) (simp_all add: t_def commit_wf_remove_commit)
  then show ?case
    using Suc.IH by (simp add: Let_def t_def [symmetric] advances_refl advances_then split: option.split)
qed (simp add: advances_refl)

lemma advances_apply_synced:
  assumes d: "\<And>s. advances E s (d s)"
    and b: "bl_height b = committed_height s + 1" "committed_height s < bl_height b"
  shows "advances E s (apply_synced_block_with d E b qc s)"
proof -
  have "advances E s (commit_synced_block E b qc s)"
    using commit_wf_cleanup [where E = E and s = s and t = "adopt_synced_block E b qc s" and c = "bl_height b"
        and h = "block_hash E b"] commit_side_adopt_synced [of E b qc s] b
    unfolding commit_synced_block_def by (simp add: advances_def split_beta)
  then show ?thesis
    unfolding apply_synced_block_with_def drain_pending_commits_with_def
    by (rule advances_then) (rule advances_drain_fuel [OF d])
qed

text \<open>A QC that certifies an actual block is not the genesis QC, so the block is not applied unverified.\<close>

lemma certifying_not_genesis: "hash_never_zero E \<Longrightarrow> qc_block_hash qc = block_hash E b \<Longrightarrow> \<not> qc_is_genesis qc"
  by (simp add: hash_never_zero_def qc_is_genesis_def block_hash_def)

lemma advances_submit:
  assumes "hash_never_zero E" "qc_block_hash qc = block_hash E b" "committed_height s < bl_height b"
  shows "advances E s (submit_synced_block_with d E b qc s)"
  using assms certifying_not_genesis [OF assms(1,2)]
  by (auto simp: submit_synced_block_with_def advances_def commit_wf_def hm_get_insert split: option.split)

lemma advances_submit_buffered:
  assumes "hash_never_zero E"
  shows "advances E s (submit_buffered d E n k s)"
proof (induction n arbitrary: k s)
  case (Suc n)
  show ?case
  proof (cases "hm_get (buffered_synced_blocks s) k")
    case (Some e)
    obtain b qc where e: "e = (b, qc)" by force
    define t where "t = s\<lparr>buffered_synced_blocks := hm_remove k (buffered_synced_blocks s)\<rparr>"
    have step: "advances E s (submit_synced_block_with d E b qc t)"
    proof (unfold advances_def, rule impI)
      assume wf: "commit_wf E s"
      then have "commit_wf E t" by (simp add: commit_wf_def t_def)
      moreover have "advances E t (submit_synced_block_with d E b qc t)"
        using wf Some e by (intro advances_submit assms) (auto simp: commit_wf_def t_def)
      ultimately show "commit_wf E (fst (submit_synced_block_with d E b qc t))
        \<and> commit_chain (committed_height s) (committed_blocks (snd (submit_synced_block_with d E b qc t)))
            (committed_height (fst (submit_synced_block_with d E b qc t)))"
        by (simp add: advances_def t_def)
    qed
    have "advances E s (then_do (submit_synced_block_with d E b qc t) (submit_buffered d E n (k + 1)))"
      by (rule advances_then [OF step]) (rule Suc.IH)
    then show ?thesis using Some e by (simp add: t_def)
  qed (simp add: advances_refl)
qed (simp add: advances_refl)

lemma advances_try_drain: "hash_never_zero E \<Longrightarrow> advances E s (try_drain_buffered_synced_blocks E s)"
  by (subst try_drain_unfold) (simp add: try_drain_step_def Let_def advances_submit_buffered advances_refl)

lemma advances_on_block_ready: "hash_never_zero E \<Longrightarrow> advances E s (on_block_ready_to_commit E h qc s)"
  unfolding on_block_ready_to_commit_def by (intro advances_block_ready advances_try_drain)

lemma advances_try_commit_pending: "hash_never_zero E \<Longrightarrow> advances E s (try_commit_pending_data E h s)"
proof -
  assume "hash_never_zero E"
  then have "advances E s (on_block_ready_to_commit E h qc
      (s\<lparr>pending_commits_awaiting_data := hm_remove h (pending_commits_awaiting_data s)\<rparr>))" for qc
    by (intro advances_trans [OF _ _ advances_on_block_ready]) (simp_all add: commit_wf_def)
  then show ?thesis by (simp add: try_commit_pending_data_def advances_refl split: option.split)
qed

lemma advances_apply_verified:
  assumes "hash_never_zero E" "next_verified s = Some (h, p)"
  shows "advances E s (apply_synced_block E (ps_block p) (ps_qc p)
    (s\<lparr>pending_synced_block_verifications := hm_remove h (pending_synced_block_verifications s)\<rparr>))"
    (is "advances E s (apply_synced_block E _ _ ?t)")
proof (unfold advances_def, rule impI)
  assume wf: "commit_wf E s"
  then have "commit_wf E ?t" by (simp add: commit_wf_def)
  moreover have above: "committed_height s < bl_height (ps_block p)"
    using wf next_verified_Some(1) [OF assms(2)] unfolding commit_wf_def by blast
  moreover have "advances E ?t (apply_synced_block E (ps_block p) (ps_qc p) ?t)"
    unfolding apply_synced_block_def
    using above next_verified_Some(3) [OF assms(2)]
    by (intro advances_apply_synced advances_try_drain assms(1)) simp_all
  ultimately show "commit_wf E (fst (apply_synced_block E (ps_block p) (ps_qc p) ?t))
      \<and> commit_chain (committed_height s) (committed_blocks (snd (apply_synced_block E (ps_block p) (ps_qc p) ?t)))
          (committed_height (fst (apply_synced_block E (ps_block p) (ps_qc p) ?t)))"
    by (simp add: advances_def)
qed

lemma advances_try_apply_loop: "hash_never_zero E \<Longrightarrow> advances E s (try_apply_loop E s)"
proof (induction E s rule: try_apply_loop.induct)
  case (1 E s)
  show ?case
  proof (cases "next_verified s")
    case None
    then show ?thesis by (simp add: try_apply_loop.simps advances_refl)
  next
    case (Some e)
    obtain h p where e: "e = (h, p)" by force
    define r where "r = apply_synced_block E (ps_block p) (ps_qc p)
      (s\<lparr>pending_synced_block_verifications := hm_remove h (pending_synced_block_verifications s)\<rparr>)"
    have "advances E s r" using advances_apply_verified 1(2) Some e by (simp add: r_def)
    moreover have "advances E (fst r) (try_apply_loop E (fst r))"
      by (rule "1.IH" [OF Some e [symmetric] r_def 1(2)])
    ultimately have "advances E s (then_do r (\<lambda>_. try_apply_loop E (fst r)))"
      by (rule advances_then)
    then show ?thesis using Some e by (subst try_apply_loop.simps) (simp add: Let_def r_def)
  qed
qed

lemma advances_on_qc_signature_verified:
  assumes nz: "hash_never_zero E"
  shows "advances E s (on_qc_signature_verified E h valid s)"
proof (cases "hm_get (pending_synced_block_verifications s) h")
  case None
  have "quiet s (on_qc_signature_verified E h valid s)"
    unfolding on_qc_signature_verified_def Let_def
    using None quiet_trans [OF _ quiet_try_vote] by (auto simp: quiet_def commit_side_def split: option.split)
  then show ?thesis by (rule quiet_advances)
next
  case (Some p)
  define t where "t = s\<lparr>pending_synced_block_verifications := hm_insert h (p\<lparr>ps_verified := True\<rparr>)
     (hm_remove h (pending_synced_block_verifications s))\<rparr>"
  have "commit_wf E s \<Longrightarrow> commit_wf E t" using Some by (auto simp: commit_wf_def t_def hm_get_insert)
  moreover have "advances E t (try_apply_verified_synced_blocks E t)"
    unfolding try_apply_verified_synced_blocks_def
    by (intro advances_then advances_try_apply_loop advances_try_drain nz)
  ultimately have "advances E s (try_apply_verified_synced_blocks E t)"
    by (intro advances_trans [of E s t]) (simp_all add: t_def)
  moreover have "advances E s (s\<lparr>pending_synced_block_verifications := hm_empty\<rparr>, [])"
    by (simp add: advances_def commit_wf_def)
  ultimately show ?thesis using Some by (simp add: on_qc_signature_verified_def t_def)
qed

lemma advances_on_synced_block_ready:
  assumes nz: "hash_never_zero E"
  shows "advances E s (on_synced_block_ready E b qc s)"
proof -
  define t where "t = s\<lparr>buffered_synced_blocks := hm_insert (bl_height b) (b, qc) (buffered_synced_blocks s)\<rparr>"
  have submit: "advances E s (submit_synced_block_for_verification E b qc s)"
    and drain: "advances E s (try_drain_buffered_synced_blocks E t)"
    if b: "committed_height s < bl_height b" "qc_block_hash qc = block_hash E b"
  proof -
    show "advances E s (submit_synced_block_for_verification E b qc s)"
      using advances_submit [OF nz b(2,1)] by (simp add: submit_synced_block_for_verification_def)
    have "commit_wf E s \<Longrightarrow> commit_wf E t" using b by (auto simp: commit_wf_def t_def hm_get_insert)
    then show "advances E s (try_drain_buffered_synced_blocks E t)"
      by (rule advances_trans [OF _ _ advances_try_drain [OF nz]]) (simp_all add: t_def)
  qed
  then show ?thesis
    unfolding on_synced_block_ready_def Let_def t_def [symmetric] by (simp add: advances_refl not_le)
qed

end
