(* ===== verification/Bft_Header.thy ===== *)
theory Bft_Header
  imports Commit_Order
begin

text \<open>
  Receiving block headers and block data in \<open>crates/bft/src/state.rs\<close>: \<open>on_block_header\<close>, the
  fetch responses, and the checks after a transaction or certificate arrived on its own.
\<close>

section \<open>Headers\<close>

text \<open>The part before validation: sync when the parent is missing, adopt its QC when it is there, follow the round.\<close>

definition learn_from_header :: "block_header \<Rightarrow> bft_state \<Rightarrow> bft_state \<times> action list" where
  "learn_from_header header s =
     (let qc = hd_parent_qc header;
          (s1, sync_actions) =
            (if \<not> qc_is_genesis qc then
               let have_parent = has_complete_block_at_height s (qc_height qc) in
               if \<not> have_parent then start_sync (qc_height qc) (qc_block_hash qc) s
               else (adopt_qc qc s, [])
             else (s, []))
      in (if hd_round header > view s1 then s1\<lparr>view := hd_round header\<rparr> else s1, sync_actions))"

definition fill_from :: "('k \<Rightarrow> 'v option) \<Rightarrow> ('v \<Rightarrow> pending_block \<Rightarrow> pending_block \<times> bool) \<Rightarrow> 'k list
    \<Rightarrow> pending_block \<Rightarrow> pending_block" where
  "fill_from look add ks p = fold (\<lambda>k p. case look k of Some v \<Rightarrow> fst (add v p) | None \<Rightarrow> p) ks p"

definition pending_from_gossip :: "block_header_gossip \<Rightarrow> (hash, routable_transaction) hmap
    \<Rightarrow> (hash, transaction_certificate) hmap \<Rightarrow> pending_block" where
  "pending_from_gossip g mempool certificates =
     (let p0 = with_proofs (go_header g) (go_retry_hashes g) (go_priority_hashes g) (go_transaction_hashes g)
                 (go_certificate_hashes g) (go_deferred g) (go_aborted g) (go_commitment_proofs g);
          p1 = fill_from (hm_get mempool) add_transaction
                 (go_retry_hashes g @ go_priority_hashes g @ go_transaction_hashes g) p0
      in fill_from (hm_get certificates) add_certificate (go_certificate_hashes g) p1)"

fun is_VerifyQcSignature :: "action \<Rightarrow> bool" where
  "is_VerifyQcSignature (VerifyQcSignature _ _ _ _) = True"
| "is_VerifyQcSignature _ = False"

text \<open>Construct a complete block and go on to vote.\<close>

definition construct_and_vote :: "crypto_env \<Rightarrow> hash \<Rightarrow> bft_state \<Rightarrow> bft_state \<times> action list" where
  "construct_and_vote E h s =
     (case hm_get (pending_blocks s) h of
        None \<Rightarrow> (s, [])
      | Some p \<Rightarrow>
          if \<not> is_complete p then (s, [])
          else (case construct_block p of
                  (_, Inl _) \<Rightarrow> (s, [])
                | (p1, Inr _) \<Rightarrow>
                    trigger_qc_verification_or_vote E h (s\<lparr>pending_blocks := hm_insert h p1 (pending_blocks s)\<rparr>)))"

definition store_pending :: "crypto_env \<Rightarrow> hash \<Rightarrow> pending_block \<Rightarrow> bft_state \<Rightarrow> bft_state" where
  "store_pending E h p s =
     s\<lparr>pending_blocks := hm_insert h p (pending_blocks s),
       pending_block_created_at := hm_insert h (now s) (pending_block_created_at s),
       vote_sets := hm_modify h (set_header E (pb_header p)) (vote_sets s)\<rparr>"

definition on_block_header :: "crypto_env \<Rightarrow> block_header_gossip \<Rightarrow> (hash, routable_transaction) hmap
    \<Rightarrow> (hash, transaction_certificate) hmap \<Rightarrow> bft_state \<Rightarrow> bft_state \<times> action list" where
  "on_block_header E g mempool certificates s =
     (let header = go_header g; h = header_hash E header;
          (s1, sync_actions) = learn_from_header header s
      in if validate_header s1 header \<noteq> None then (s1, [])
         else
           let s2 = record_header_activity (hd_height header) (hd_round header) s1 in
           if hm_contains (pending_blocks s2) h then (s2, [])
           else
             let s3 = store_pending E h (pending_from_gossip g mempool certificates) s2;
                 (s4, trigger) = maybe_trigger_vote_verification h s3;
                 actions = trigger @ sync_actions
             in if list_ex is_VerifyQcSignature actions then (s4, actions)
                else then_do (s4, actions) (construct_and_vote E h))"

section \<open>Block data\<close>

text \<open>
  What follows once data was added: a complete block is constructed, voted on, and a commit
  that waited for its data is retried.
\<close>

definition block_completed :: "crypto_env \<Rightarrow> hash \<Rightarrow> bft_state \<Rightarrow> bft_state \<times> action list" where
  "block_completed E h s =
     (case hm_get (pending_blocks s) h of
        None \<Rightarrow> (s, [])
      | Some p \<Rightarrow>
          (case construct_block p of
             (_, Inl _) \<Rightarrow> (s, [])
           | (p1, Inr _) \<Rightarrow>
               then_do (trigger_qc_verification_or_vote E h
                          (s\<lparr>pending_blocks := hm_insert h p1 (pending_blocks s)\<rparr>))
                 (try_commit_pending_data E h)))"

definition refetch_actions :: "hash \<Rightarrow> pending_block \<Rightarrow> action list" where
  "refetch_actions h p =
     (if missing_transactions p \<noteq> []
      then [FetchTransactions h (hd_proposer (pb_header p)) (missing_transactions p)] else [])
     @ (if missing_certificates p \<noteq> []
        then [FetchCertificates h (hd_proposer (pb_header p)) (missing_certificates p)] else [])"

definition on_data_received :: "crypto_env \<Rightarrow> hash \<Rightarrow> (pending_block \<Rightarrow> pending_block) \<Rightarrow> bft_state
    \<Rightarrow> bft_state \<times> action list" where
  "on_data_received E h add s =
     (case hm_get (pending_blocks s) h of
        None \<Rightarrow> (s, [])
      | Some p \<Rightarrow>
          let p1 = add p; s1 = s\<lparr>pending_blocks := hm_insert h p1 (pending_blocks s)\<rparr> in
          if \<not> is_complete p1 then (s1, refetch_actions h p1)
          else block_completed E h s1)"

definition on_transaction_fetch_received :: "crypto_env \<Rightarrow> hash \<Rightarrow> routable_transaction list \<Rightarrow> bft_state
    \<Rightarrow> bft_state \<times> action list" where
  "on_transaction_fetch_received E h transactions =
     on_data_received E h (\<lambda>p. fold (\<lambda>tx p. fst (add_transaction tx p)) transactions p)"

definition on_certificate_fetch_received :: "crypto_env \<Rightarrow> hash \<Rightarrow> transaction_certificate list \<Rightarrow> bft_state
    \<Rightarrow> bft_state \<times> action list" where
  "on_certificate_fetch_received E h certificates =
     on_data_received E h (\<lambda>p. fold (\<lambda>c p. fst (add_certificate c p)) certificates p)"

text \<open>One turn of the loops of \<open>check_pending_blocks_for_transaction\<close> and its certificate twin.\<close>

definition try_complete :: "crypto_env \<Rightarrow> (pending_block \<Rightarrow> pending_block) \<Rightarrow> hash \<Rightarrow> bft_state
    \<Rightarrow> bft_state \<times> action list" where
  "try_complete E add h s =
     (case hm_get (pending_blocks s) h of
        None \<Rightarrow> (s, [])
      | Some p \<Rightarrow>
          let p1 = add p; s1 = s\<lparr>pending_blocks := hm_insert h p1 (pending_blocks s)\<rparr> in
          if is_complete p1 then block_completed E h s1 else (s1, []))"

definition for_each :: "('k \<Rightarrow> 's \<Rightarrow> 's \<times> 'a list) \<Rightarrow> 'k list \<Rightarrow> 's \<Rightarrow> 's \<times> 'a list" where
  "for_each f ks s = fold (\<lambda>k r. then_do r (f k)) ks (s, [])"

definition check_pending_blocks_for_transaction :: "crypto_env \<Rightarrow> hash \<Rightarrow> (hash, routable_transaction) hmap
    \<Rightarrow> bft_state \<Rightarrow> bft_state \<times> action list" where
  "check_pending_blocks_for_transaction E h mempool s =
     for_each (try_complete E (\<lambda>p. case hm_get mempool h of Some tx \<Rightarrow> fst (add_transaction tx p) | None \<Rightarrow> p))
       (map fst (filter (\<lambda>(_, p). needs_transaction p h) (hm_entries (pending_blocks s)))) s"

definition check_pending_blocks_for_certificate :: "crypto_env \<Rightarrow> hash \<Rightarrow> (hash, transaction_certificate) hmap
    \<Rightarrow> bft_state \<Rightarrow> bft_state \<times> action list" where
  "check_pending_blocks_for_certificate E h certificates s =
     for_each (try_complete E (\<lambda>p. case hm_get certificates h of Some c \<Rightarrow> fst (add_certificate c p) | None \<Rightarrow> p))
       (map fst (filter (\<lambda>(_, p). h \<in> set (missing_certificates p)) (hm_entries (pending_blocks s)))) s"

section \<open>Effect on the commit order\<close>

lemma commit_side_pending_blocks [simp]: "commit_side (s\<lparr>pending_blocks := x\<rparr>) = commit_side s"
  by (simp add: commit_side_def)

lemma commit_side_store_pending [simp]: "commit_side (store_pending E h p s) = commit_side s"
  by (simp add: store_pending_def commit_side_def)

lemma commit_side_view [simp]: "commit_side (s\<lparr>view := v\<rparr>) = commit_side s"
  by (simp add: commit_side_def)

lemma quiet_learn: "quiet s (learn_from_header header s)"
  using quiet_start_sync [of s]
  by (auto simp: learn_from_header_def Let_def quiet_def split_beta)

lemma quiet_construct_and_vote: "quiet s (construct_and_vote E h s)"
  unfolding construct_and_vote_def
  by (auto intro!: quietI quiet_trans [OF _ quiet_trigger] split: option.split prod.split sum.split)

lemma quiet_on_block_header: "quiet s (on_block_header E g mempool certs s)"
proof -
  obtain s1 sync where l: "learn_from_header (go_header g) s = (s1, sync)" by force
  have s1: "commit_side s1 = commit_side s" "committed_blocks sync = []"
    using quiet_learn [of s "go_header g"] l by (simp_all add: quiet_def)
  define s2 where "s2 = record_header_activity (hd_height (go_header g)) (hd_round (go_header g)) s1"
  define s3 where "s3 = store_pending E (header_hash E (go_header g)) (pending_from_gossip g mempool certs) s2"
  obtain s4 tr where t: "maybe_trigger_vote_verification (header_hash E (go_header g)) s3 = (s4, tr)" by force
  have s2: "commit_side s2 = commit_side s" by (simp add: s2_def s1)
  have s4: "commit_side s4 = commit_side s" "committed_blocks tr = []"
    using quiet_maybe_trigger [of s3 "header_hash E (go_header g)"] t s2 by (simp_all add: quiet_def s3_def)
  have "quiet s (then_do (s4, tr @ sync) (construct_and_vote E (header_hash E (go_header g))))"
    by (intro quiet_then quietI quiet_construct_and_vote) (simp_all add: s4 s1)
  then show ?thesis
    unfolding on_block_header_def Let_def l split_conv s2_def [symmetric] s3_def [symmetric] t
    using s1 s2 s4 by (simp add: quietI)
qed

lemma advances_block_completed: "hash_never_zero E \<Longrightarrow> advances E s (block_completed E h s)"
proof -
  assume nz: "hash_never_zero E"
  have "advances E s (trigger_qc_verification_or_vote E h (s\<lparr>pending_blocks := x\<rparr>))" for x
    by (rule quiet_advances, rule quiet_trans [OF _ quiet_trigger]) simp
  then show ?thesis
    unfolding block_completed_def
    by (auto intro!: advances_then advances_try_commit_pending nz advances_refl split: option.split prod.split sum.split)
qed

lemma advances_pending_blocks: "advances E (s\<lparr>pending_blocks := x\<rparr>) r \<Longrightarrow> advances E s r"
  by (rule advances_trans [of E s "s\<lparr>pending_blocks := x\<rparr>"]) (simp_all add: commit_wf_side [of "s\<lparr>pending_blocks := x\<rparr>" s])

lemma advances_on_data_received: "hash_never_zero E \<Longrightarrow> advances E s (on_data_received E h add s)"
proof -
  assume nz: "hash_never_zero E"
  have "committed_blocks (refetch_actions h p) = []" for p
    by (rule committed_blocks_eq_Nil) (auto simp: refetch_actions_def)
  then have "advances E s (s\<lparr>pending_blocks := x\<rparr>, refetch_actions h p)" for x p
    by (intro quiet_advances quietI) simp_all
  then show ?thesis
    unfolding on_data_received_def Let_def
    by (auto intro: advances_refl advances_pending_blocks [OF advances_block_completed [OF nz]] split: option.split)
qed

lemma advances_try_complete: "hash_never_zero E \<Longrightarrow> advances E s (try_complete E add h s)"
proof -
  assume nz: "hash_never_zero E"
  have "advances E s (s\<lparr>pending_blocks := x\<rparr>, [])" for x
    by (intro quiet_advances quietI) simp_all
  then show ?thesis
    unfolding try_complete_def Let_def
    by (auto intro: advances_refl advances_pending_blocks [OF advances_block_completed [OF nz]] split: option.split)
qed

lemma advances_for_each:
  assumes "\<And>k s. advances E s (f k s)"
  shows "advances E s (for_each f ks s)"
proof -
  have "advances E s r \<Longrightarrow> advances E s (fold (\<lambda>k r. then_do r (f k)) ks r)" for r
    by (induction ks arbitrary: r) (simp_all add: advances_then assms)
  then show ?thesis by (simp add: for_each_def advances_refl)
qed

lemma advances_check_pending:
  assumes "hash_never_zero E"
  shows "advances E s (check_pending_blocks_for_transaction E h mempool s)"
    "advances E s (check_pending_blocks_for_certificate E h certs s)"
  unfolding check_pending_blocks_for_transaction_def check_pending_blocks_for_certificate_def
  by (rule advances_for_each, rule advances_try_complete [OF assms])+

section \<open>Headers without content\<close>

text \<open>A header without any content is complete at once.\<close>

definition bare :: "block_header_gossip \<Rightarrow> bool" where
  "bare g \<longleftrightarrow> go_retry_hashes g = [] \<and> go_priority_hashes g = [] \<and> go_transaction_hashes g = []
     \<and> go_certificate_hashes g = [] \<and> go_deferred g = [] \<and> go_aborted g = []"

lemma pending_from_bare:
  assumes "bare g"
  obtains p b where "construct_block (pending_from_gossip g m c) = (p, Inr b)" "is_complete (pending_from_gossip g m c)"
    "constructed_block p = Some b" "pb_header p = go_header g" "bl_header b = go_header g"
    "all_transactions b = []" "bl_certificates b = []" "bl_deferred b = []" "bl_aborted b = []"
  using assms
  by (simp add: bare_def pending_from_gossip_def fill_from_def with_proofs_def construct_block_def is_complete_def
      all_transactions_def hs_collect_def Let_def)

lemma try_vote_bare:
  assumes "hm_get (pending_blocks s) h = Some p" "constructed_block p = Some b" "\<not> hm_contains (voted_heights s) height"
    and "all_transactions b = []" "bl_certificates b = []" "bl_deferred b = []" "bl_aborted b = []"
  shows "try_vote_on_block E h height round s = create_vote E h height round s"
proof -
  have none: "bl_retry_transactions b = []" "bl_priority_transactions b = []" "bl_transactions b = []"
    using assms(4) by (simp_all add: all_transactions_def)
  have "validate_deferrals_and_aborts b = None" "validate_transaction_ordering b = None"
    by (simp_all add: validate_deferrals_and_aborts_def validate_transaction_ordering_def or_else_def Let_def assms none)
  moreover have "initiate_verifications E h b s = (s, [])"
    by (simp add: initiate_verifications_def block_needs_cycle_proof_verification_def block_needs_state_root_verification_def
        block_needs_transaction_root_verification_def transaction_count_def assms none)
  ultimately show ?thesis using assms(1-3) by (simp add: try_vote_on_block_def)
qed

end
