(* ===== verification/Bft_Proposal.thy ===== *)
theory Bft_Proposal
  imports Bft_Votes
begin

text \<open>
  Proposing in \<open>crates/bft/src/state.rs\<close>: the proposal timer with its walk down the certified
  chain, fallback and sync blocks, round changes, the reaction to a built proposal and to a
  new quorum certificate, and start-up.

  The walk over parent links is a \<open>while\<close> loop that the code does not bound; it is a partial
  function, so \<open>on_proposal_timer\<close> and \<open>on_qc_formed\<close> return an option.
\<close>

section \<open>Start-up\<close>

definition timer_actions :: "bft_state \<Rightarrow> action list" where
  "timer_actions s = [SetTimer Proposal_timer (cfg_proposal_interval (config s)),
                      SetTimer Cleanup_timer (cfg_cleanup_interval (config s))]"

definition initialize_genesis :: "crypto_env \<Rightarrow> block \<Rightarrow> bft_state \<Rightarrow> bft_state \<times> action list" where
  "initialize_genesis E genesis s =
     (s\<lparr>last_chain_committed_state_version := hd_state_version (bl_header genesis),
        genesis_block := Some genesis, committed_hash := block_hash E genesis\<rparr>, timer_actions s)"

definition request_recovery :: "action list" where
  "request_recovery = [FetchChainMetadata]"

definition on_chain_metadata_fetched :: "u64 \<Rightarrow> hash option \<Rightarrow> quorum_certificate option \<Rightarrow> bft_state
    \<Rightarrow> bft_state \<times> action list" where
  "on_chain_metadata_fetched height h qc s =
     (if height = 0 \<and> h = None then (s, [])
      else
        let s1 = s\<lparr>committed_height := height,
                   committed_hash := (case h of Some x \<Rightarrow> x | None \<Rightarrow> committed_hash s),
                   latest_qc := qc, view_at_height_start := view s\<rparr>;
            (s2, removed) = cleanup_old_state height s1
        in (s2, timer_actions s @ map CancelFetch removed))"

section \<open>Empty blocks\<close>

definition empty_header :: "crypto_env \<Rightarrow> bft_state \<Rightarrow> u64 \<Rightarrow> u64 \<Rightarrow> u64 \<Rightarrow> bool \<Rightarrow> block_header" where
  "empty_header E s height round timestamp fallback =
     (let (parent_hash, parent_qc) = proposal_parent s;
          (parent_state_root, parent_state_version) = parent_state E s parent_hash
      in \<lparr>hd_height = height, hd_parent_hash = parent_hash, hd_parent_qc = parent_qc,
          hd_proposer = validator_id_of s, hd_timestamp = timestamp, hd_round = round,
          hd_is_fallback = fallback, hd_state_root = parent_state_root,
          hd_state_version = parent_state_version, hd_transaction_root = Hash_ZERO\<rparr>)"

text \<open>The part that \<open>build_and_broadcast_fallback_block\<close> and \<open>build_and_broadcast_sync_block\<close> have in common.\<close>

definition store_own_block :: "hash \<Rightarrow> block_header \<Rightarrow> bft_state \<Rightarrow> bft_state" where
  "store_own_block h header s =
     (case construct_block (pb_new header [] [] [] []) of
        (p, Inr b) \<Rightarrow>
          s\<lparr>pending_blocks := hm_insert h p (pending_blocks s),
            pending_block_created_at := hm_insert h (now s) (pending_block_created_at s),
            certified_blocks := hm_insert h (b, hd_parent_qc header) (certified_blocks s)\<rparr>
      | (_, Inl _) \<Rightarrow> s)"

definition broadcast_empty_block :: "crypto_env \<Rightarrow> block_header \<Rightarrow> bft_state \<Rightarrow> bft_state \<times> action list" where
  "broadcast_empty_block E header s =
     (let h = header_hash E header;
          s1 = store_own_block h header s;
          s2 = record_leader_activity (s1\<lparr>last_proposal_time := now s1\<rparr>)
      in then_do (s2, [BroadcastToShard (local_shard (topology s)) (Msg_BlockHeader (gossip_new header [] [] []))])
           (\<lambda>s3. then_do (create_vote E h (hd_height header) (hd_round header) s3)
             (\<lambda>s4. (s4, [SetTimer Proposal_timer (cfg_proposal_interval (config s))]))))"

definition build_and_broadcast_fallback_block :: "crypto_env \<Rightarrow> u64 \<Rightarrow> u64 \<Rightarrow> bft_state
    \<Rightarrow> bft_state \<times> action list" where
  "build_and_broadcast_fallback_block E height round s =
     broadcast_empty_block E
       (empty_header E s height round (qc_weighted_timestamp_ms (snd (proposal_parent s))) True) s"

definition build_and_broadcast_sync_block :: "crypto_env \<Rightarrow> u64 \<Rightarrow> u64 \<Rightarrow> bft_state \<Rightarrow> bft_state \<times> action list" where
  "build_and_broadcast_sync_block E height round s =
     broadcast_empty_block E (empty_header E s height round (as_millis_u64 (now s)) False) s"

definition repropose_locked_block :: "hash \<Rightarrow> bft_state \<Rightarrow> bft_state \<times> action list" where
  "repropose_locked_block h s =
     (case hm_get (pending_blocks s) h of
        None \<Rightarrow> (s, [SetTimer Proposal_timer (cfg_proposal_interval (config s))])
      | Some p \<Rightarrow>
          (record_leader_activity (s\<lparr>last_proposal_time := now s\<rparr>),
           [BroadcastToShard (local_shard (topology s)) (Msg_BlockHeader
              (gossip_full (pb_header p) (retry_order p) (priority_order p) (other_order p)
                 (pb_all_certificate_hashes p) (pb_deferred p) (pb_aborted p) (pb_commitment_proofs p))),
            SetTimer Proposal_timer (cfg_proposal_interval (config s))]))"

section \<open>Round change\<close>

definition unlock_height :: "u64 \<Rightarrow> bft_state \<Rightarrow> bft_state" where
  "unlock_height height s =
     (let s1 = s\<lparr>voted_heights := hm_remove height (voted_heights s)\<rparr> in
      fst (clear_vote_tracking_for_height height (view s1) s1))"

definition advance_round :: "crypto_env \<Rightarrow> bft_state \<Rightarrow> bft_state \<times> action list" where
  "advance_round E s =
     (let height = next_proposal_height s;
          s1 = s\<lparr>view := view s + 1, view_changes := view_changes s + 1\<rparr>;
          latest_qc_height = (case latest_qc s of Some qc \<Rightarrow> qc_height qc | None \<Rightarrow> 0);
          s2 = (if latest_qc_height < height then unlock_height height s1 else s1)
      in if should_propose (topology s2) height (view s2) then
           (case hm_get (voted_heights s2) height of
              Some (existing_hash, _) \<Rightarrow> repropose_locked_block existing_hash s2
            | None \<Rightarrow> build_and_broadcast_fallback_block E height (view s2) s2)
         else (s2, [SetTimer Proposal_timer (cfg_proposal_interval (config s))]))"

definition check_round_timeout :: "crypto_env \<Rightarrow> bft_state \<Rightarrow> bft_state \<times> action list option" where
  "check_round_timeout E s =
     (if \<not> should_advance_round s then (s, None)
      else
        let (s1, acts) = advance_round E (s\<lparr>last_leader_activity := now s, last_header_reset := None\<rparr>)
        in (s1, Some acts))"

section \<open>The proposal timer\<close>

text \<open>The certificates of the blocks from the parent down to the committed height.\<close>

partial_function (option) walk_qc_chain :: "crypto_env \<Rightarrow> bft_state \<Rightarrow> hash \<Rightarrow> hash hset \<Rightarrow> hash hset option" where
  "walk_qc_chain E s h acc =
     (case get_block_by_hash E s h of
        None \<Rightarrow> Some acc
      | Some b \<Rightarrow>
          if bl_height b \<le> committed_height s then Some acc
          else walk_qc_chain E s (hd_parent_hash (bl_header b))
                 (fold hs_insert (map tc_transaction_hash (bl_certificates b)) acc))"

definition enough_signers :: "bft_state \<Rightarrow> transaction_defer \<Rightarrow> bool" where
  "enough_signers s d \<longleftrightarrow>
     \<not> (word_of_nat (cp_signer_count (cy_winner_commitment (td_proof d)))
         < quorum_threshold_for_shard (topology s) (winner_source_shard (td_proof d)))"

definition certificates_to_propose :: "bft_state \<Rightarrow> hash hset \<Rightarrow> transaction_certificate list
    \<Rightarrow> transaction_certificate list" where
  "certificates_to_propose s seen certs =
     take (cfg_max_certificates_per_block (config s))
       (filter (\<lambda>c. \<not> hm_contains seen (tc_transaction_hash c)) certs)"

definition deferrals_to_propose :: "bft_state \<Rightarrow> u64 \<Rightarrow> transaction_certificate list \<Rightarrow> transaction_defer list
    \<Rightarrow> transaction_defer list" where
  "deferrals_to_propose s height certs deferred =
     (let cert_hash_set = hs_collect (map tc_transaction_hash certs) in
      filter (\<lambda>d. \<not> hm_contains cert_hash_set (winner_hash d) \<and> \<not> hm_contains cert_hash_set (td_tx_hash d))
        (map (\<lambda>d. d\<lparr>td_block_height := height\<rparr>) (filter (enough_signers s) deferred)))"

definition make_proposal :: "crypto_env \<Rightarrow> ready_transactions \<Rightarrow> transaction_defer list \<Rightarrow> transaction_abort list
    \<Rightarrow> transaction_certificate list \<Rightarrow> (hash, commitment_proof) hmap \<Rightarrow> hash hset \<Rightarrow> bft_state \<Rightarrow> build_proposal" where
  "make_proposal E ready deferred aborted certs proofs seen s =
     (let height = next_proposal_height s;
          (parent_hash, parent_qc) = proposal_parent s;
          (parent_state_root, parent_state_version) = parent_state E s parent_hash;
          certs1 = certificates_to_propose s seen certs
      in \<lparr>bp_proposer = validator_id_of s, bp_height = height, bp_round = view s,
          bp_parent_hash = parent_hash, bp_parent_qc = parent_qc, bp_timestamp = as_millis_u64 (now s),
          bp_is_fallback = False, bp_parent_state_root = parent_state_root,
          bp_parent_state_version = parent_state_version,
          bp_retry_transactions = rt_retries ready, bp_priority_transactions = rt_priority ready,
          bp_transactions = rt_others ready, bp_certificates = certs1, bp_commitment_proofs = proofs,
          bp_deferred = deferrals_to_propose s height certs1 deferred,
          bp_aborted = map (\<lambda>a. a\<lparr>ta_block_height := height\<rparr>) aborted\<rparr>)"

definition on_proposal_timer :: "crypto_env \<Rightarrow> ready_transactions \<Rightarrow> transaction_defer list
    \<Rightarrow> transaction_abort list \<Rightarrow> transaction_certificate list \<Rightarrow> (hash, commitment_proof) hmap
    \<Rightarrow> bft_state \<Rightarrow> (bft_state \<times> action list) option" where
  "on_proposal_timer E ready deferred aborted certs proofs s =
     (let height = next_proposal_height s; round = view s;
          timer = SetTimer Proposal_timer (cfg_proposal_interval (config s))
      in if \<not> should_propose (topology s) height round then Some (s, [timer])
         else if hm_contains (voted_heights s) height then Some (s, [timer])
         else if syncing s then Some (build_and_broadcast_sync_block E height round s)
         else
           (case walk_qc_chain E s (fst (proposal_parent s)) hm_empty of
              None \<Rightarrow> None
            | Some seen \<Rightarrow>
                Some (s\<lparr>pending_proposal_opt := Some \<lparr>pp_height = height, pp_round = round\<rparr>\<rparr>,
                      [timer, BuildProposal (make_proposal E ready deferred aborted certs proofs seen s)])))"

section \<open>The built proposal\<close>

text \<open>The pending block of the own proposal, with every body put in.\<close>

definition own_pending :: "block \<Rightarrow> pending_block" where
  "own_pending b =
     (let p0 = with_proofs (bl_header b) (map tx_hash (bl_retry_transactions b))
                 (map tx_hash (bl_priority_transactions b)) (map tx_hash (bl_transactions b))
                 (map tc_transaction_hash (bl_certificates b)) (bl_deferred b) (bl_aborted b)
                 (bl_commitment_proofs b);
          p1 = fold (\<lambda>tx p. fst (add_transaction tx p)) (bl_retry_transactions b) p0;
          p2 = fold (\<lambda>tx p. fst (add_transaction tx p)) (bl_priority_transactions b) p1;
          p3 = fold (\<lambda>tx p. fst (add_transaction tx p)) (bl_transactions b) p2
      in fold (\<lambda>c p. fst (add_certificate c p)) (bl_certificates b) p3)"

definition own_gossip :: "block \<Rightarrow> block_header_gossip" where
  "own_gossip b = gossip_full (bl_header b) (map tx_hash (bl_retry_transactions b))
     (map tx_hash (bl_priority_transactions b)) (map tx_hash (bl_transactions b))
     (map tc_transaction_hash (bl_certificates b)) (bl_deferred b) (bl_aborted b) (bl_commitment_proofs b)"

definition on_proposal_built :: "crypto_env \<Rightarrow> u64 \<Rightarrow> u64 \<Rightarrow> block \<Rightarrow> hash \<Rightarrow> bft_state \<Rightarrow> bft_state \<times> action list" where
  "on_proposal_built E height round b h s =
     (case pending_proposal_opt s of
        None \<Rightarrow> (s, [])
      | Some pp \<Rightarrow>
          if pp_height pp \<noteq> height \<or> pp_round pp \<noteq> round then (s, [])
          else
            let s1 = s\<lparr>pending_proposal_opt := None\<rparr> in
            (case construct_block (own_pending b) of
               (_, Inl _) \<Rightarrow> (s1, [])
             | (p, Inr _) \<Rightarrow>
                 let s2 = record_leader_activity (s1\<lparr>pending_blocks := hm_insert h p (pending_blocks s1),
                       pending_block_created_at := hm_insert h (now s1) (pending_block_created_at s1),
                       last_proposal_time := now s1\<rparr>)
                 in then_do (s2, [BroadcastToShard (local_shard (topology s)) (Msg_BlockHeader (own_gossip b))])
                      (create_vote E h height round)))"

section \<open>A quorum certificate formed\<close>

definition content_ready :: "ready_transactions \<Rightarrow> transaction_defer list \<Rightarrow> transaction_abort list
    \<Rightarrow> transaction_certificate list \<Rightarrow> bool" where
  "content_ready ready deferred aborted certs \<longleftrightarrow>
     ready_iter ready \<noteq> [] \<or> deferred \<noteq> [] \<or> aborted \<noteq> [] \<or> certs \<noteq> []"

definition qc_formed_actions :: "hash \<Rightarrow> quorum_certificate \<Rightarrow> bft_state \<Rightarrow> action list" where
  "qc_formed_actions h qc s =
     (case commit_lookup s h of Some b \<Rightarrow> [PersistBlock b qc] | None \<Rightarrow> [])
     @ (if has_committable_block qc then
          (case (committable_height qc, committable_hash qc) of
             (Some ch, Some chash) \<Rightarrow>
               if ch > committed_height s then [EnqueueInternal (BlockReadyToCommit chash qc)] else []
           | _ \<Rightarrow> [])
        else [])"

definition on_qc_formed :: "crypto_env \<Rightarrow> hash \<Rightarrow> quorum_certificate \<Rightarrow> ready_transactions
    \<Rightarrow> transaction_defer list \<Rightarrow> transaction_abort list \<Rightarrow> transaction_certificate list
    \<Rightarrow> (hash, commitment_proof) hmap \<Rightarrow> bft_state \<Rightarrow> (bft_state \<times> action list) option" where
  "on_qc_formed E h qc ready deferred aborted certs proofs s =
     (let s1 = adopt_qc qc (record_leader_activity s);
          actions = qc_formed_actions h qc s1;
          rate_limited = (now s1 - last_proposal_time s1 < cfg_min_block_interval (config s1));
          should_try_proposal = (content_ready ready deferred aborted certs \<or> syncing s1)
      in if should_try_proposal \<and> \<not> rate_limited then
           map_option (\<lambda>(s2, acts). (s2, actions @ acts))
             (on_proposal_timer E ready deferred aborted certs proofs s1)
         else Some (s1, actions))"

section \<open>Proposing never commits\<close>

lemma quiet_broadcast_empty: "quiet s (broadcast_empty_block E header s)"
proof -
  have store: "commit_side (record_leader_activity (t\<lparr>last_proposal_time := x\<rparr>)) = commit_side s"
    if "t = store_own_block h header s" for h t x
    unfolding that commit_side_record
    by (simp add: store_own_block_def commit_side_def split: prod.split sum.split)
  show ?thesis
    unfolding broadcast_empty_block_def Let_def
    by (intro quiet_then quietI store quiet_create_vote) simp_all
qed

lemma quiet_empty_blocks:
  "quiet s (build_and_broadcast_fallback_block E height round s)"
  "quiet s (build_and_broadcast_sync_block E height round s)"
  by (simp_all add: build_and_broadcast_fallback_block_def build_and_broadcast_sync_block_def
      quiet_broadcast_empty)

lemma quiet_repropose: "quiet s (repropose_locked_block h s)"
  by (auto simp: repropose_locked_block_def quiet_def split: option.split) (simp_all add: commit_side_def)

lemma commit_side_unlock_height [simp]: "commit_side (unlock_height h s) = commit_side s"
  by (simp add: unlock_height_def Let_def) (simp add: commit_side_def)

lemma quiet_advance_round: "quiet s (advance_round E s)"
proof -
  define t where "t = s\<lparr>view := view s + 1, view_changes := view_changes s + 1\<rparr>"
  have t: "commit_side t = commit_side s" by (simp add: t_def commit_side_def)
  have "quiet s (repropose_locked_block x u)" "quiet s (build_and_broadcast_fallback_block E y z u)"
    if "commit_side u = commit_side s" for x y z u
    using quiet_trans [OF that] quiet_repropose quiet_empty_blocks by blast+
  then show ?thesis
    unfolding advance_round_def Let_def t_def [symmetric]
    using t by (auto simp: quiet_def [of _ "(_, _)"] split: option.split prod.split)
qed

lemma quiet_on_proposal_timer: "on_proposal_timer E ready d a c ps s = Some r \<Longrightarrow> quiet s r"
  unfolding on_proposal_timer_def Let_def
  by (auto simp: quiet_empty_blocks quiet_def [of _ "(_, _)"] commit_side_def split: if_splits option.splits)

lemma committed_blocks_qc_formed [simp]: "committed_blocks (qc_formed_actions h qc s) = []"
  by (auto simp: qc_formed_actions_def split: option.split)

lemma quiet_on_qc_formed: "on_qc_formed E h qc ready d a c ps s = Some r \<Longrightarrow> quiet s r"
proof -
  define t where "t = adopt_qc qc (record_leader_activity s)"
  have t: "commit_side t = commit_side s" by (simp add: t_def)
  assume "on_qc_formed E h qc ready d a c ps s = Some r"
  then consider "r = (t, qc_formed_actions h qc t)"
    | r' where "on_proposal_timer E ready d a c ps t = Some r'" "r = (fst r', qc_formed_actions h qc t @ snd r')"
    unfolding on_qc_formed_def Let_def t_def [symmetric] by (auto split: if_splits)
  then show ?thesis
  proof cases
    case 1
    then show ?thesis using t by (simp add: quiet_def)
  next
    case (2 r')
    then show ?thesis using quiet_on_proposal_timer [OF 2(1)] t by (simp add: quiet_def)
  qed
qed

lemma quiet_on_proposal_built: "quiet s (on_proposal_built E height round b h s)"
proof -
  have "quiet s (then_do (record_leader_activity t, [BroadcastToShard sh (Msg_BlockHeader g)]) (create_vote E h height round))"
    if "commit_side t = commit_side s" for t sh g
    by (intro quiet_then quietI quiet_create_vote) (simp_all add: that)
  moreover have "commit_side (s\<lparr>pending_proposal_opt := x, pending_blocks := y, pending_block_created_at := z,
      last_proposal_time := w\<rparr>) = commit_side s" for x y z w by (simp add: commit_side_def)
  moreover have "commit_side (s\<lparr>pending_proposal_opt := x\<rparr>) = commit_side s" for x by (simp add: commit_side_def)
  ultimately show ?thesis
    unfolding on_proposal_built_def Let_def
    by (auto simp: quiet_def [of _ "(_, _)"] split: option.split prod.split sum.split)
qed

section \<open>The walk down the certified chain\<close>

text \<open>The blocks the walk visits: stored ones above the committed height, linked by parent hashes.\<close>

inductive on_qc_chain :: "crypto_env \<Rightarrow> bft_state \<Rightarrow> hash \<Rightarrow> block \<Rightarrow> bool" for E s where
  chain_here: "get_block_by_hash E s h = Some b \<Longrightarrow> committed_height s < bl_height b \<Longrightarrow> on_qc_chain E s h b"
| chain_parent: "get_block_by_hash E s h = Some p \<Longrightarrow> committed_height s < bl_height p
    \<Longrightarrow> on_qc_chain E s (hd_parent_hash (bl_header p)) b \<Longrightarrow> on_qc_chain E s h b"

lemma contains_fold_hs: "hm_contains (fold hs_insert xs acc) x \<longleftrightarrow> x \<in> set xs \<or> hm_contains acc x"
  by (induction xs arbitrary: acc) auto

lemma on_qc_chain_start:
  assumes "on_qc_chain E s h b"
  shows "\<exists>p. get_block_by_hash E s h = Some p \<and> committed_height s < bl_height p
    \<and> (b = p \<or> on_qc_chain E s (hd_parent_hash (bl_header p)) b)"
  using assms
proof (cases rule: on_qc_chain.cases)
  case chain_here
  then show ?thesis by simp
next
  case (chain_parent p)
  then show ?thesis by simp
qed

lemma on_qc_chain_stop:
  assumes "\<And>p. get_block_by_hash E s h = Some p \<Longrightarrow> bl_height p \<le> committed_height s"
  shows "\<not> on_qc_chain E s h b"
proof
  assume "on_qc_chain E s h b"
  then obtain p where p: "get_block_by_hash E s h = Some p" "committed_height s < bl_height p"
    using on_qc_chain_start by blast
  then show False using assms [OF p(1)] by simp
qed

lemma on_qc_chain_step:
  assumes "get_block_by_hash E s h = Some p" "committed_height s < bl_height p"
  shows "on_qc_chain E s h b \<longleftrightarrow> b = p \<or> on_qc_chain E s (hd_parent_hash (bl_header p)) b" (is "?l \<longleftrightarrow> ?r")
proof
  assume ?l
  then show ?r using on_qc_chain_start [of E s h b] assms(1) by simp
next
  assume ?r
  then show ?l
    using chain_here [OF assms] chain_parent [OF assms] by metis
qed

lemma walk_qc_chain_collects:
  "walk_qc_chain E s h acc = Some seen \<Longrightarrow>
   hm_contains seen x \<longleftrightarrow> hm_contains acc x
     \<or> (\<exists>b. on_qc_chain E s h b \<and> x \<in> set (map tc_transaction_hash (bl_certificates b)))"
proof (induction rule: walk_qc_chain.raw_induct [rotated 1, consumes 1, case_names step])
  case (step walk E s h acc seen)
  show ?case
  proof (cases "get_block_by_hash E s h")
    case None
    then have "\<not> on_qc_chain E s h b" for b by (intro on_qc_chain_stop) simp
    then show ?thesis using step(2) None by simp
  next
    case (Some b)
    show ?thesis
    proof (cases "bl_height b \<le> committed_height s")
      case True
      then have "\<not> on_qc_chain E s h b'" for b' using Some by (intro on_qc_chain_stop) simp
      then show ?thesis using step(2) Some True by simp
    next
      case False
      define parent where "parent = hd_parent_hash (bl_header b)"
      define certs where "certs = map tc_transaction_hash (bl_certificates b)"
      have "walk E s parent (fold hs_insert certs acc) = Some seen"
        using step(2) Some False by (simp add: parent_def certs_def)
      note IH = step(1) [OF this]
      have chain: "on_qc_chain E s h b' \<longleftrightarrow> b' = b \<or> on_qc_chain E s parent b'" for b'
        using on_qc_chain_step [OF Some] False by (simp add: parent_def)
      have "(\<exists>b'. on_qc_chain E s h b' \<and> x \<in> set (map tc_transaction_hash (bl_certificates b')))
          \<longleftrightarrow> x \<in> set certs \<or> (\<exists>b'. on_qc_chain E s parent b' \<and> x \<in> set (map tc_transaction_hash (bl_certificates b')))"
        unfolding chain certs_def by blast
      then show ?thesis unfolding IH contains_fold_hs by blast
    qed
  qed
qed

text \<open>The walk ends whenever heights drop along the stored parent links above the committed height.\<close>

definition links_drop :: "crypto_env \<Rightarrow> bft_state \<Rightarrow> bool" where
  "links_drop E s \<longleftrightarrow> (\<forall>h b p. get_block_by_hash E s h = Some b \<longrightarrow> committed_height s < bl_height b
     \<longrightarrow> get_block_by_hash E s (hd_parent_hash (bl_header b)) = Some p \<longrightarrow> bl_height p < bl_height b)"

lemma walk_returns:
  assumes "links_drop E s"
  shows "\<exists>seen. walk_qc_chain E s h acc = Some seen"
proof (cases "get_block_by_hash E s h")
  case (Some b)
  then show ?thesis
  proof (induction "unat (bl_height b)" arbitrary: h b acc rule: less_induct)
    case less
    let ?parent = "hd_parent_hash (bl_header b)"
    let ?acc = "fold hs_insert (map tc_transaction_hash (bl_certificates b)) acc"
    have "\<exists>seen. walk_qc_chain E s ?parent ?acc = Some seen" if above: "committed_height s < bl_height b"
    proof (cases "get_block_by_hash E s ?parent")
      case None
      then show ?thesis by (simp add: walk_qc_chain.simps)
    next
      case (Some p)
      then have "unat (bl_height p) < unat (bl_height b)"
        using assms less.prems above unfolding links_drop_def word_less_nat_alt by blast
      then show ?thesis using less.hyps Some by blast
    qed
    then show ?case using less.prems by (subst walk_qc_chain.simps) (simp add: not_le)
  qed
qed (simp add: walk_qc_chain.simps)

text \<open>What header validation and a truthful certificate give for a stored block and its stored parent.\<close>

definition headers_checked :: "crypto_env \<Rightarrow> bft_state \<Rightarrow> bool" where
  "headers_checked E s \<longleftrightarrow> (\<forall>h b. get_block_by_hash E s h = Some b \<longrightarrow> committed_height s < bl_height b
     \<longrightarrow> (\<exists>t. validate_header t (bl_header b) = None))"

definition certificates_truthful :: "crypto_env \<Rightarrow> bft_state \<Rightarrow> bool" where
  "certificates_truthful E s \<longleftrightarrow> (\<forall>h b p. get_block_by_hash E s h = Some b
     \<longrightarrow> get_block_by_hash E s (hd_parent_hash (bl_header b)) = Some p
     \<longrightarrow> bl_height p = qc_height (hd_parent_qc (bl_header b)))"

lemma validated_height_above:
  assumes "validate_header t h = None"
  shows "qc_height (hd_parent_qc h) < hd_height h"
proof -
  have pos: "committed_height t < hd_height h" using assms by (auto simp: validate_header_def Let_def not_le split: if_splits)
  show ?thesis
  proof (cases "qc_is_genesis (hd_parent_qc h)")
    case True
    then show ?thesis using pos by (simp add: qc_is_genesis_def word_gt_0 word_less_nat_alt)
  next
    case False
    then have "qc_height (hd_parent_qc h) + 1 = hd_height h"
      using assms by (auto simp: validate_header_def Let_def split: if_splits)
    moreover have "hd_height h \<noteq> 0" using pos by auto
    ultimately have "qc_height (hd_parent_qc h) + 1 \<noteq> 0" by simp
    then show ?thesis using \<open>qc_height (hd_parent_qc h) + 1 = hd_height h\<close> by unat_arith
  qed
qed

lemma links_drop_checked: "headers_checked E s \<Longrightarrow> certificates_truthful E s \<Longrightarrow> links_drop E s"
  unfolding links_drop_def headers_checked_def certificates_truthful_def by (metis validated_height_above)

section \<open>What is proposed\<close>

lemma sync_block_actions:
  "a \<in> set (snd (build_and_broadcast_sync_block E h r s)) \<Longrightarrow>
   (\<forall>bp. a \<noteq> BuildProposal bp) \<and> (\<forall>i. a \<noteq> EnqueueInternal i)"
  by (auto simp: build_and_broadcast_sync_block_def broadcast_empty_block_def Let_def then_do_simps
      dest!: create_vote_action)

lemma timer_actions_cases:
  assumes "on_proposal_timer E ready d a certs ps s = Some (s', acts)"
  shows "EnqueueInternal i \<notin> set acts"
    and "BuildProposal bp \<in> set acts \<Longrightarrow>
      \<exists>seen. walk_qc_chain E s (fst (proposal_parent s)) hm_empty = Some seen
        \<and> bp = make_proposal E ready d a certs ps seen s"
  using assms sync_block_actions [of _ E "next_proposal_height s" "view s" s]
  unfolding on_proposal_timer_def Let_def by (auto split: if_splits option.splits)

text \<open>No certificate of a proposal is already in a block between the parent and the committed height.\<close>

lemma proposed_certificates_new:
  assumes "on_proposal_timer E ready d a certs ps s = Some (s', acts)" "BuildProposal bp \<in> set acts"
  shows "length (bp_certificates bp) \<le> cfg_max_certificates_per_block (config s)"
    and "c \<in> set (bp_certificates bp) \<Longrightarrow> on_qc_chain E s (fst (proposal_parent s)) b \<Longrightarrow>
      tc_transaction_hash c \<notin> tc_transaction_hash ` set (bl_certificates b)"
proof -
  obtain seen where walk: "walk_qc_chain E s (fst (proposal_parent s)) hm_empty = Some seen"
    and bp: "bp = make_proposal E ready d a certs ps seen s"
    using timer_actions_cases(2) [OF assms] by blast
  have certs: "bp_certificates bp = certificates_to_propose s seen certs"
    by (simp add: bp make_proposal_def Let_def split_beta)
  then show "length (bp_certificates bp) \<le> cfg_max_certificates_per_block (config s)"
    by (simp add: certificates_to_propose_def)
  assume c: "c \<in> set (bp_certificates bp)" and b: "on_qc_chain E s (fst (proposal_parent s)) b"
  then have "\<not> hm_contains seen (tc_transaction_hash c)"
    unfolding certs certificates_to_propose_def by (auto dest!: in_set_takeD)
  then show "tc_transaction_hash c \<notin> tc_transaction_hash ` set (bl_certificates b)"
    using walk_qc_chain_collects [OF walk, of "tc_transaction_hash c"] b by auto
qed

text \<open>The deferrals of a proposal pass the staleness rules that voters check.\<close>

lemma proposed_deferrals_fresh:
  assumes "d \<in> set (deferrals_to_propose s height certs deferred)"
  shows "deferral_error (hs_collect (map tc_transaction_hash certs)) d
    \<notin> {Some (Winner_certified (winner_hash d)), Some (Loser_certified (td_tx_hash d))}"
  using assms by (auto simp: deferrals_to_propose_def deferral_error_def Let_def)

section \<open>The own proposal\<close>

abbreviation add_transactions :: "routable_transaction list \<Rightarrow> pending_block \<Rightarrow> pending_block" where
  "add_transactions txs p \<equiv> fold (\<lambda>tx p. fst (add_transaction tx p)) txs p"

abbreviation add_certificates :: "transaction_certificate list \<Rightarrow> pending_block \<Rightarrow> pending_block" where
  "add_certificates cs p \<equiv> fold (\<lambda>c p. fst (add_certificate c p)) cs p"

lemma add_transactions_one:
  "pb_header (fst (add_transaction x p)) = pb_header p"
  "retry_order (fst (add_transaction x p)) = retry_order p"
  "priority_order (fst (add_transaction x p)) = priority_order p"
  "other_order (fst (add_transaction x p)) = other_order p"
  "original_cert_order (fst (add_transaction x p)) = original_cert_order p"
  "received_certificates (fst (add_transaction x p)) = received_certificates p"
  "missing_certificate_hashes (fst (add_transaction x p)) = missing_certificate_hashes p"
  "pb_deferred (fst (add_transaction x p)) = pb_deferred p"
  "pb_aborted (fst (add_transaction x p)) = pb_aborted p"
  "pb_commitment_proofs (fst (add_transaction x p)) = pb_commitment_proofs p"
  "constructed_block (fst (add_transaction x p)) = constructed_block p"
  by (simp_all add: add_transaction_def Let_def)

lemma add_transactions_frame [simp]:
  "pb_header (add_transactions xs p) = pb_header p"
  "retry_order (add_transactions xs p) = retry_order p"
  "priority_order (add_transactions xs p) = priority_order p"
  "other_order (add_transactions xs p) = other_order p"
  "original_cert_order (add_transactions xs p) = original_cert_order p"
  "received_certificates (add_transactions xs p) = received_certificates p"
  "missing_certificate_hashes (add_transactions xs p) = missing_certificate_hashes p"
  "pb_deferred (add_transactions xs p) = pb_deferred p"
  "pb_aborted (add_transactions xs p) = pb_aborted p"
  "pb_commitment_proofs (add_transactions xs p) = pb_commitment_proofs p"
  "constructed_block (add_transactions xs p) = constructed_block p"
  by (induction xs arbitrary: p) (simp_all add: add_transactions_one)

lemma add_certificates_one:
  "pb_header (fst (add_certificate x p)) = pb_header p"
  "retry_order (fst (add_certificate x p)) = retry_order p"
  "priority_order (fst (add_certificate x p)) = priority_order p"
  "other_order (fst (add_certificate x p)) = other_order p"
  "original_cert_order (fst (add_certificate x p)) = original_cert_order p"
  "received_transactions (fst (add_certificate x p)) = received_transactions p"
  "missing_transaction_hashes (fst (add_certificate x p)) = missing_transaction_hashes p"
  "pb_deferred (fst (add_certificate x p)) = pb_deferred p"
  "pb_aborted (fst (add_certificate x p)) = pb_aborted p"
  "pb_commitment_proofs (fst (add_certificate x p)) = pb_commitment_proofs p"
  "constructed_block (fst (add_certificate x p)) = constructed_block p"
  by (simp_all add: add_certificate_def Let_def)

lemma add_certificates_frame [simp]:
  "pb_header (add_certificates xs p) = pb_header p"
  "retry_order (add_certificates xs p) = retry_order p"
  "priority_order (add_certificates xs p) = priority_order p"
  "other_order (add_certificates xs p) = other_order p"
  "original_cert_order (add_certificates xs p) = original_cert_order p"
  "received_transactions (add_certificates xs p) = received_transactions p"
  "missing_transaction_hashes (add_certificates xs p) = missing_transaction_hashes p"
  "pb_deferred (add_certificates xs p) = pb_deferred p"
  "pb_aborted (add_certificates xs p) = pb_aborted p"
  "pb_commitment_proofs (add_certificates xs p) = pb_commitment_proofs p"
  "constructed_block (add_certificates xs p) = constructed_block p"
  by (induction xs arbitrary: p) (simp_all add: add_certificates_one)

lemma add_transactions_missing:
  "hm_contains (missing_transaction_hashes (add_transactions txs p)) h \<longleftrightarrow>
     hm_contains (missing_transaction_hashes p) h \<and> h \<notin> tx_hash ` set txs"
  by (induction txs arbitrary: p) (auto simp: add_transaction_def Let_def)

lemma add_transactions_other:
  "h \<notin> tx_hash ` set txs \<Longrightarrow>
     hm_get (received_transactions (add_transactions txs p)) h = hm_get (received_transactions p) h"
  by (induction txs arbitrary: p) (auto simp: add_transaction_def Let_def hm_get_insert)

lemma add_transactions_received:
  assumes "distinct (map tx_hash txs)" "\<And>x. x \<in> set txs \<Longrightarrow> hm_contains (missing_transaction_hashes p) (tx_hash x)"
    and "tx \<in> set txs"
  shows "hm_get (received_transactions (add_transactions txs p)) (tx_hash tx) = Some tx"
  using assms
proof (induction txs arbitrary: p)
  case (Cons x xs)
  let ?p = "fst (add_transaction x p)"
  have new: "tx_hash x \<notin> tx_hash ` set xs" using Cons.prems(1) by simp
  have p: "missing_transaction_hashes ?p = hm_remove (tx_hash x) (missing_transaction_hashes p)"
    "received_transactions ?p = hm_insert (tx_hash x) x (received_transactions p)"
    using Cons.prems(2) by (simp_all add: add_transaction_def Let_def)
  show ?case
  proof (cases "tx \<in> set xs")
    case True
    have "hm_contains (missing_transaction_hashes ?p) (tx_hash y)" if "y \<in> set xs" for y
    proof -
      have "tx_hash y \<noteq> tx_hash x" using new that by (metis imageI)
      then show ?thesis using Cons.prems(2) [of y] that by (simp add: p)
    qed
    then show ?thesis using Cons.IH [of ?p] Cons.prems(1) True by simp
  next
    case False
    then have "tx = x" using Cons.prems(3) by simp
    then show ?thesis using add_transactions_other [OF new, of ?p] by (simp add: p hm_get_insert)
  qed
qed simp

lemma remove_in_order_roundtrip:
  assumes "distinct (map key vs)" "\<And>v. v \<in> set vs \<Longrightarrow> hm_get m (key v) = Some v"
  shows "fst (remove_in_order (map key vs) m) = vs"
  using assms
proof (induction vs arbitrary: m)
  case (Cons v vs)
  have "hm_get (hm_remove (key v) m) (key w) = Some w" if "w \<in> set vs" for w
  proof -
    have "key w \<noteq> key v" using Cons.prems(1) that by (metis distinct.simps(2) imageI list.set_map list.simps(9))
    then show ?thesis using Cons.prems(2) [of w] that by simp
  qed
  then have "fst (remove_in_order (map key vs) (hm_remove (key v) m)) = vs"
    using Cons.IH [of "hm_remove (key v) m"] Cons.prems(1) by simp
  then show ?case using Cons.prems(2) [of v] by (simp add: split_beta)
qed simp

text \<open>The same facts for certificates.\<close>

lemma add_certificates_missing:
  "hm_contains (missing_certificate_hashes (add_certificates cs p)) h \<longleftrightarrow>
     hm_contains (missing_certificate_hashes p) h \<and> h \<notin> tc_transaction_hash ` set cs"
  by (induction cs arbitrary: p) (auto simp: add_certificate_def Let_def)

lemma add_certificates_other:
  "h \<notin> tc_transaction_hash ` set cs \<Longrightarrow>
     hm_get (received_certificates (add_certificates cs p)) h = hm_get (received_certificates p) h"
  by (induction cs arbitrary: p) (auto simp: add_certificate_def Let_def hm_get_insert)

lemma add_certificates_received:
  assumes "distinct (map tc_transaction_hash cs)"
    and "\<And>x. x \<in> set cs \<Longrightarrow> hm_contains (missing_certificate_hashes p) (tc_transaction_hash x)" "c \<in> set cs"
  shows "hm_get (received_certificates (add_certificates cs p)) (tc_transaction_hash c) = Some c"
  using assms
proof (induction cs arbitrary: p)
  case (Cons x xs)
  let ?p = "fst (add_certificate x p)"
  have new: "tc_transaction_hash x \<notin> tc_transaction_hash ` set xs" using Cons.prems(1) by simp
  have p: "missing_certificate_hashes ?p = hm_remove (tc_transaction_hash x) (missing_certificate_hashes p)"
    "received_certificates ?p = hm_insert (tc_transaction_hash x) x (received_certificates p)"
    using Cons.prems(2) by (simp_all add: add_certificate_def Let_def)
  show ?case
  proof (cases "c \<in> set xs")
    case True
    have "hm_contains (missing_certificate_hashes ?p) (tc_transaction_hash y)" if "y \<in> set xs" for y
    proof -
      have "tc_transaction_hash y \<noteq> tc_transaction_hash x" using new that by (metis imageI)
      then show ?thesis using Cons.prems(2) [of y] that by (simp add: p)
    qed
    then show ?thesis using Cons.IH [of ?p] Cons.prems(1) True by simp
  next
    case False
    then have "c = x" using Cons.prems(3) by simp
    then show ?thesis using add_certificates_other [OF new, of ?p] by (simp add: p hm_get_insert)
  qed
qed simp

text \<open>A block whose hashes are pairwise distinct is rebuilt from its own pending entry unchanged.\<close>

lemma own_pending_constructs:
  assumes txs: "distinct (map tx_hash (bl_retry_transactions b @ bl_priority_transactions b @ bl_transactions b))"
    and certs: "distinct (map tc_transaction_hash (bl_certificates b))"
  shows "\<exists>p. construct_block (own_pending b) = (p, Inr b) \<and> constructed_block p = Some b \<and> pb_header p = bl_header b"
proof -
  define all where "all = bl_retry_transactions b @ bl_priority_transactions b @ bl_transactions b"
  define p0 where "p0 = with_proofs (bl_header b) (map tx_hash (bl_retry_transactions b))
     (map tx_hash (bl_priority_transactions b)) (map tx_hash (bl_transactions b))
     (map tc_transaction_hash (bl_certificates b)) (bl_deferred b) (bl_aborted b) (bl_commitment_proofs b)"
  define q where "q = add_transactions all p0"
  define p where "p = add_certificates (bl_certificates b) q"
  have own: "own_pending b = p"
    by (simp add: own_pending_def p_def q_def p0_def all_def Let_def)
  have miss: "hm_contains (missing_transaction_hashes p0) h \<longleftrightarrow> h \<in> tx_hash ` set all"
    "hm_contains (missing_certificate_hashes p0) h \<longleftrightarrow> h \<in> tc_transaction_hash ` set (bl_certificates b)" for h
    by (auto simp: p0_def with_proofs_def all_def)
  have complete: "is_complete p"
  proof -
    have "\<not> hm_contains (missing_transaction_hashes p) h" "\<not> hm_contains (missing_certificate_hashes p) h" for h
      by (simp_all add: p_def q_def add_transactions_missing add_certificates_missing miss)
    then show ?thesis unfolding is_complete_def hm_no_entries hm_contains_def by blast
  qed
  have none: "constructed_block p = None" by (simp add: p_def q_def p0_def with_proofs_def)
  have tx: "hm_get (received_transactions p) (tx_hash x) = Some x" if "x \<in> set all" for x
    using add_transactions_received [OF txs [folded all_def], of p0 x] that miss by (simp add: p_def q_def)
  have cert: "hm_get (received_certificates p) (tc_transaction_hash c) = Some c" if "c \<in> set (bl_certificates b)" for c
    using add_certificates_received [OF certs, of q c] that miss by (simp add: p_def q_def)
  define m1 where "m1 = snd (remove_in_order (map tx_hash (bl_retry_transactions b)) (received_transactions p))"
  define m2 where "m2 = snd (remove_in_order (map tx_hash (bl_priority_transactions b)) m1)"
  have 1: "fst (remove_in_order (map tx_hash (bl_retry_transactions b)) (received_transactions p)) = bl_retry_transactions b"
    using txs tx by (intro remove_in_order_roundtrip) (auto simp: all_def)
  have 2: "fst (remove_in_order (map tx_hash (bl_priority_transactions b)) m1) = bl_priority_transactions b"
    using txs tx by (intro remove_in_order_roundtrip) (auto simp: all_def m1_def remove_in_order_rest)
  have 3: "fst (remove_in_order (map tx_hash (bl_transactions b)) m2) = bl_transactions b"
    using txs tx by (intro remove_in_order_roundtrip) (auto simp: all_def m1_def m2_def remove_in_order_rest)
  have 4: "fst (remove_in_order (map tc_transaction_hash (bl_certificates b)) (received_certificates p)) = bl_certificates b"
    using certs cert by (intro remove_in_order_roundtrip) auto
  have ord: "retry_order p = map tx_hash (bl_retry_transactions b)" "priority_order p = map tx_hash (bl_priority_transactions b)"
    "other_order p = map tx_hash (bl_transactions b)" "original_cert_order p = map tc_transaction_hash (bl_certificates b)"
    "pb_header p = bl_header b" "pb_deferred p = bl_deferred b" "pb_aborted p = bl_aborted b"
    "pb_commitment_proofs p = bl_commitment_proofs b"
    by (simp_all add: p_def q_def p0_def with_proofs_def)
  show ?thesis
    unfolding own construct_block_fresh [OF complete none] ord m1_def [symmetric] m2_def [symmetric] 1 2 3 4
    by (simp add: ord)
qed

section \<open>Round changes\<close>

text \<open>
  After a round change the node holds no vote lock at the height it works on, unless that
  height has wrapped around; so it never re-proposes a locked block.
\<close>

lemma advance_round_fallback:
  assumes "case latest_qc s of Some qc \<Rightarrow> qc_height qc \<noteq> u64_MAX | None \<Rightarrow> committed_height s \<noteq> u64_MAX"
  defines "s1 \<equiv> unlock_height (next_proposal_height s) (s\<lparr>view := view s + 1, view_changes := view_changes s + 1\<rparr>)"
  shows "advance_round E s =
    (if should_propose (topology s) (next_proposal_height s) (view s + 1)
     then build_and_broadcast_fallback_block E (next_proposal_height s) (view s + 1) s1
     else (s1, [SetTimer Proposal_timer (cfg_proposal_interval (config s))]))"
proof -
  have less: "(case latest_qc s of Some qc \<Rightarrow> qc_height qc | None \<Rightarrow> 0) < next_proposal_height s"
  proof (cases "latest_qc s")
    case None
    then have "committed_height s < committed_height s + 1" using assms(1) word_Suc_no_wrap by simp
    then have "committed_height s + 1 \<noteq> 0" by auto
    then show ?thesis using None by (simp add: next_proposal_height_def word_neq_0_conv)
  next
    case (Some qc)
    then show ?thesis using assms(1) word_Suc_no_wrap by (simp add: next_proposal_height_def)
  qed
  have frame: "topology s1 = topology s" "view s1 = view s + 1"
    "hm_get (voted_heights s1) (next_proposal_height s) = None"
    by (simp_all add: s1_def unlock_height_def clear_vote_tracking_for_height_def Let_def)
  show ?thesis
    using less unfolding advance_round_def Let_def s1_def [symmetric] by (simp add: frame)
qed

section \<open>The two-chain rule\<close>

lemma qc_formed_commit:
  assumes "on_qc_formed E h qc ready d a certs ps s = Some (s', acts)"
  shows "EnqueueInternal (BlockReadyToCommit c q) \<in> set acts \<longleftrightarrow>
     q = qc \<and> 0 < qc_height qc \<and> c = qc_parent_block_hash qc \<and> committed_height s < qc_height qc - 1"
proof -
  define t where "t = adopt_qc qc (record_leader_activity s)"
  have "commit_side t = commit_side s" by (simp add: t_def)
  then have "committed_height t = committed_height s" by (simp add: commit_side_def)
  then have own: "EnqueueInternal (BlockReadyToCommit c q) \<in> set (qc_formed_actions h qc t) \<longleftrightarrow>
     q = qc \<and> 0 < qc_height qc \<and> c = qc_parent_block_hash qc \<and> committed_height s < qc_height qc - 1"
    by (cases "commit_lookup t h"; cases "0 < qc_height qc"; cases "committed_height s < qc_height qc - 1")
      (simp_all add: qc_formed_actions_def committable_height_def committable_hash_def has_committable_iff conj_commute)
  have "\<exists>rest. acts = qc_formed_actions h qc t @ rest \<and> EnqueueInternal (BlockReadyToCommit c q) \<notin> set rest"
    using assms timer_actions_cases(1) unfolding on_qc_formed_def Let_def t_def [symmetric]
    by (auto split: if_splits)
  then show ?thesis using own by auto
qed

section \<open>The effect of a fallback block\<close>

lemma unlock_height_simps [simp]:
  "view (unlock_height k s) = view s" "latest_qc (unlock_height k s) = latest_qc s"
  "committed_hash (unlock_height k s) = committed_hash s" "topology (unlock_height k s) = topology s"
  "voted_heights (unlock_height k s) = hm_remove k (voted_heights s)"
  "validator_id_of (unlock_height k s) = validator_id_of s" "config (unlock_height k s) = config s"
  by (simp_all add: unlock_height_def clear_vote_tracking_for_height_def Let_def)

lemma empty_header_fields:
  "hd_height (empty_header E s height round ts fb) = height" "hd_round (empty_header E s height round ts fb) = round"
  "hd_parent_hash (empty_header E s height round ts fb) = fst (proposal_parent s)"
  "hd_parent_qc (empty_header E s height round ts fb) = snd (proposal_parent s)"
  "hd_is_fallback (empty_header E s height round ts fb) = fb"
  "hd_proposer (empty_header E s height round ts fb) = validator_id_of s"
  by (simp_all add: empty_header_def Let_def split_beta)

lemma view_create_vote [simp]: "view (fst (create_vote E h he r s)) = view s"
proof -
  have "view (fst (maybe_trigger_vote_verification h t)) = view t" for h t
    unfolding maybe_trigger_vote_verification_def Let_def by (simp split: option.split prod.split)
  then have "view (fst (on_block_vote_internal E v t)) = view t" for v t
    unfolding on_block_vote_internal_def Let_def by (simp split: option.split)
  then show ?thesis by (simp add: create_vote_def Let_def split_beta)
qed

lemma broadcast_empty_block_effect:
  "BroadcastToShard (local_shard (topology s)) (Msg_BlockHeader (gossip_new header [] [] [])) \<in> set (snd (broadcast_empty_block E header s))"
  "votes_cast (snd (broadcast_empty_block E header s)) = [(hd_height header, hd_round header, header_hash E header)]"
  "hm_get (voted_heights (fst (broadcast_empty_block E header s))) (hd_height header) = Some (header_hash E header, hd_round header)"
  "view (fst (broadcast_empty_block E header s)) = view s"
proof -
  have "view (store_own_block (header_hash E header) header s) = view s"
    by (simp add: store_own_block_def split: prod.split sum.split)
  then show "view (fst (broadcast_empty_block E header s)) = view s"
    by (simp add: broadcast_empty_block_def Let_def then_do_simps record_leader_activity_def)
qed (simp_all add: broadcast_empty_block_def Let_def then_do_simps hm_get_insert)

end
