(* ===== verification/Bft_Machine.thy ===== *)
theory Bft_Machine
  imports Bft_Header Bft_Proposal
begin

text \<open>
  The consensus state machine as a whole: one event per public method of \<open>BftState\<close>
  (\<open>crates/bft/src/state.rs\<close>), the step relation over them with arbitrary inputs, its runs,
  and the properties of every run.

  \<open>on_chain_metadata_fetched\<close> replaces the committed height by what storage holds; it is kept
  apart from the other events, since order and monotonicity hold between recoveries.
\<close>

section \<open>Events and steps\<close>

datatype bft_event =
    Set_time duration
  | Initialize_genesis block
  | Proposal_timer_fired ready_transactions "transaction_defer list" "transaction_abort list"
      "transaction_certificate list" "(hash, commitment_proof) hmap"
  | Block_header_received block_header_gossip "(hash, routable_transaction) hmap"
      "(hash, transaction_certificate) hmap"
  | Block_vote_received block_vote
  | Qc_result hash "quorum_certificate option" "verified_vote list"
  | Qc_signature_verified hash bool
  | Cycle_proof_verified hash bool
  | State_root_verified hash bool
  | Transaction_root_verified hash bool
  | Proposal_built u64 u64 block hash
  | State_commit_complete u64 hash
  | Qc_formed hash quorum_certificate ready_transactions "transaction_defer list"
      "transaction_abort list" "transaction_certificate list" "(hash, commitment_proof) hmap"
  | Block_ready_to_commit hash quorum_certificate
  | Sync_block_ready block quorum_certificate
  | Sync_complete
  | Start_sync u64 hash
  | Check_round_timeout
  | Transactions_fetched hash "routable_transaction list"
  | Certificates_fetched hash "transaction_certificate list"
  | Transaction_arrived hash "(hash, routable_transaction) hmap"
  | Certificate_finalized hash "(hash, transaction_certificate) hmap"
  | Check_fetches
  | Check_sync_health

definition bft_handle :: "crypto_env \<Rightarrow> bft_event \<Rightarrow> bft_state \<Rightarrow> (bft_state \<times> action list) option" where
  "bft_handle E ev s =
     (case ev of
        Set_time t \<Rightarrow> Some (set_time t s, [])
      | Initialize_genesis b \<Rightarrow> Some (initialize_genesis E b s)
      | Proposal_timer_fired ready d a c ps \<Rightarrow> on_proposal_timer E ready d a c ps s
      | Block_header_received g mempool certs \<Rightarrow> Some (on_block_header E g mempool certs s)
      | Block_vote_received v \<Rightarrow> Some (on_block_vote E v s)
      | Qc_result h qc votes \<Rightarrow> Some (on_qc_result h qc votes s)
      | Qc_signature_verified h valid \<Rightarrow> Some (on_qc_signature_verified E h valid s)
      | Cycle_proof_verified h valid \<Rightarrow> Some (on_cycle_proof_verified E h valid s)
      | State_root_verified h valid \<Rightarrow> Some (on_state_root_verified E h valid s)
      | Transaction_root_verified h valid \<Rightarrow> Some (on_transaction_root_verified E h valid s)
      | Proposal_built height round b h \<Rightarrow> Some (on_proposal_built E height round b h s)
      | State_commit_complete v r \<Rightarrow> Some (on_state_commit_complete v r s)
      | Qc_formed h qc ready d a c ps \<Rightarrow> on_qc_formed E h qc ready d a c ps s
      | Block_ready_to_commit h qc \<Rightarrow> Some (on_block_ready_to_commit E h qc s)
      | Sync_block_ready b qc \<Rightarrow> Some (on_sync_block_ready_to_apply E b qc s)
      | Sync_complete \<Rightarrow> Some (on_sync_complete s)
      | Start_sync height h \<Rightarrow> Some (start_sync height h s)
      | Check_round_timeout \<Rightarrow>
          (case check_round_timeout E s of (s1, acts) \<Rightarrow> Some (s1, case acts of Some a \<Rightarrow> a | None \<Rightarrow> []))
      | Transactions_fetched h txs \<Rightarrow> Some (on_transaction_fetch_received E h txs s)
      | Certificates_fetched h cs \<Rightarrow> Some (on_certificate_fetch_received E h cs s)
      | Transaction_arrived h mempool \<Rightarrow> Some (check_pending_blocks_for_transaction E h mempool s)
      | Certificate_finalized h certs \<Rightarrow> Some (check_pending_blocks_for_certificate E h certs s)
      | Check_fetches \<Rightarrow> Some (s, check_pending_block_fetches s)
      | Check_sync_health \<Rightarrow> Some (check_sync_health s))"

text \<open>A run: the events handled one after the other, with all their actions.\<close>

inductive bft_run :: "crypto_env \<Rightarrow> bft_state \<Rightarrow> bft_event list \<Rightarrow> bft_state \<Rightarrow> action list \<Rightarrow> bool" for E s where
  run_nil: "bft_run E s [] s []"
| run_snoc: "bft_run E s evs t acts \<Longrightarrow> bft_handle E ev t = Some (u, new)
    \<Longrightarrow> bft_run E s (evs @ [ev]) u (acts @ new)"

text \<open>The same, computed from the first event on.\<close>

primrec bft_exec :: "crypto_env \<Rightarrow> bft_event list \<Rightarrow> bft_state \<Rightarrow> (bft_state \<times> action list) option" where
  "bft_exec E [] s = Some (s, [])"
| "bft_exec E (ev # evs) s =
     (case bft_handle E ev s of
        None \<Rightarrow> None
      | Some (t, acts) \<Rightarrow> map_option (\<lambda>(u, new). (u, acts @ new)) (bft_exec E evs t))"

lemma bft_run_cons:
  "bft_run E t evs u acts \<Longrightarrow> bft_handle E ev s = Some (t, first) \<Longrightarrow> bft_run E s (ev # evs) u (first @ acts)"
proof (induction rule: bft_run.induct)
  case run_nil
  then show ?case using bft_run.run_snoc [OF bft_run.run_nil, of E ev s t first] by simp
next
  case (run_snoc evs u acts ev' v new)
  then have "bft_run E s ((ev # evs) @ [ev']) v ((first @ acts) @ new)"
    by (intro bft_run.run_snoc [OF run_snoc.IH]) auto
  then show ?case by simp
qed

lemma bft_exec_run: "bft_exec E evs s = Some (t, acts) \<Longrightarrow> bft_run E s evs t acts"
proof (induction evs arbitrary: s acts)
  case Nil
  then show ?case by (simp add: run_nil)
next
  case (Cons ev evs)
  then obtain u a b where u: "bft_handle E ev s = Some (u, a)" "bft_exec E evs u = Some (t, b)" "acts = a @ b"
    by (auto split: option.splits prod.splits)
  then show ?case using bft_run_cons [OF Cons.IH [OF u(2)] u(1)] by simp
qed

section \<open>Every event keeps the commit order\<close>

lemma quiet_check_round_timeout:
  assumes "check_round_timeout E s = (t, acts)"
  shows "quiet s (t, case acts of Some a \<Rightarrow> a | None \<Rightarrow> [])"
proof (cases "should_advance_round s")
  case False
  then show ?thesis using assms by (auto simp: check_round_timeout_def quiet_def)
next
  case True
  let ?u = "s\<lparr>last_leader_activity := now s, last_header_reset := None\<rparr>"
  have "quiet s (advance_round E ?u)"
    by (rule quiet_trans [OF _ quiet_advance_round]) (simp add: commit_side_def)
  then show ?thesis using assms True by (auto simp: check_round_timeout_def split: prod.splits)
qed

lemma advances_initialize_genesis: "advances E s (initialize_genesis E b s)"
  by (simp add: advances_def initialize_genesis_def commit_wf_def timer_actions_def)

lemma advances_sync_ready:
  "hash_never_zero E \<Longrightarrow> advances E s (on_sync_block_ready_to_apply E b qc s)"
  by (simp add: on_sync_block_ready_to_apply_def advances_on_synced_block_ready advances_refl)

lemma quiet_set_time: "quiet s (set_time t s, [])"
  by (simp add: quiet_def set_time_def commit_side_def)

lemma quiet_check_fetches: "quiet s (s, check_pending_block_fetches s)"
  by (simp add: quiet_def)

lemmas quiet_handlers = quiet_set_time quiet_check_fetches quiet_on_block_header quiet_on_qc_result
  quiet_verified_callbacks quiet_on_proposal_built quiet_on_state_commit_complete quiet_on_sync_complete
  quiet_start_sync quiet_check_sync_health quiet_on_block_vote_internal

lemmas advancing_handlers = advances_initialize_genesis advances_sync_ready advances_on_block_ready
  advances_on_qc_signature_verified advances_on_data_received advances_check_pending

lemma bft_handle_advances:
  assumes nz: "hash_never_zero E" and step: "bft_handle E ev s = Some r"
  shows "advances E s r"
proof (cases ev)
  case Check_round_timeout
  then show ?thesis
    using step quiet_check_round_timeout [of E s] quiet_advances
    by (auto simp: bft_handle_def split: prod.splits)
next
  case Proposal_timer_fired
  then show ?thesis using step quiet_on_proposal_timer quiet_advances by (auto simp: bft_handle_def)
next
  case Qc_formed
  then show ?thesis using step quiet_on_qc_formed quiet_advances by (auto simp: bft_handle_def)
qed (use step nz in \<open>auto simp: bft_handle_def on_block_vote_def on_transaction_fetch_received_def
       on_certificate_fetch_received_def quiet_advances quiet_handlers advancing_handlers\<close>)

lemma bft_run_advances:
  assumes "hash_never_zero E" "bft_run E s evs t acts"
  shows "advances E s (t, acts)"
  using assms(2)
proof induction
  case (run_snoc evs t acts ev u new)
  then have "advances E s (then_do (t, acts) (\<lambda>_. (u, new)))"
    using bft_handle_advances [OF assms(1)] by (intro advances_then) auto
  then show ?case by (simp add: then_do_def)
qed (simp add: advances_refl)

lemma commit_wf_new: "commit_wf E (bft_new E i k T cfg rec)"
  by (simp add: commit_wf_def bft_new_def)

lemma commit_wf_recovery: "commit_wf E s \<Longrightarrow> commit_wf E (fst (on_chain_metadata_fetched height h qc s))"
proof -
  assume wf: "commit_wf E s"
  let ?t = "s\<lparr>committed_height := height, committed_hash := (case h of Some x \<Rightarrow> x | None \<Rightarrow> committed_hash s),
     latest_qc := qc, view_at_height_start := view s\<rparr>"
  have side: "commit_side ?t = commit_side (s\<lparr>committed_height := height,
      committed_hash := (case h of Some x \<Rightarrow> x | None \<Rightarrow> committed_hash s)\<rparr>)"
    by (simp add: commit_side_def)
  show ?thesis
    using wf commit_wf_cleanup [OF wf side] by (simp add: on_chain_metadata_fetched_def Let_def split_beta)
qed

lemma commit_chain_list:
  "commit_chain c bs c' \<Longrightarrow> map (\<lambda>b. unat (bl_height b)) bs = [Suc (unat c)..<Suc (unat c')]"
proof (rule nth_equalityI)
  assume chain: "commit_chain c bs c'"
  then show "length (map (\<lambda>b. unat (bl_height b)) bs) = length [Suc (unat c)..<Suc (unat c')]"
    using commit_chain_unat [OF chain] by (simp del: upt_Suc)
  fix i assume "i < length (map (\<lambda>b. unat (bl_height b)) bs)"
  then show "map (\<lambda>b. unat (bl_height b)) bs ! i = [Suc (unat c)..<Suc (unat c')] ! i"
    using chain commit_chain_unat [OF chain] commit_chain_heights [OF chain, of i] by (simp del: upt_Suc)
qed

end
