(* ===== verification/Vote_Rules.thy ===== *)
theory Vote_Rules
  imports Bft_Votes
begin

text \<open>
  When the node votes: what \<open>try_vote_on_block\<close> checks before it casts a vote, what it records,
  and where the verification callbacks cast votes without the checks.
\<close>

section \<open>Frames\<close>

lemma frame_maybe_trigger [simp]:
  "pending_blocks (fst (maybe_trigger_vote_verification h s)) = pending_blocks s"
  "verified_transaction_roots (fst (maybe_trigger_vote_verification h s)) = verified_transaction_roots s"
  "verified_state_roots (fst (maybe_trigger_vote_verification h s)) = verified_state_roots s"
  unfolding maybe_trigger_vote_verification_def Let_def by (simp_all split: option.split prod.split)

lemma frame_vote_internal [simp]:
  "pending_blocks (fst (on_block_vote_internal E v s)) = pending_blocks s"
  "verified_transaction_roots (fst (on_block_vote_internal E v s)) = verified_transaction_roots s"
  "verified_state_roots (fst (on_block_vote_internal E v s)) = verified_state_roots s"
  unfolding on_block_vote_internal_def Let_def by (simp_all split: option.split)

lemma frame_create_vote [simp]:
  "pending_blocks (fst (create_vote E h he r s)) = pending_blocks s"
  "verified_transaction_roots (fst (create_vote E h he r s)) = verified_transaction_roots s"
  "verified_state_roots (fst (create_vote E h he r s)) = verified_state_roots s"
  by (simp_all add: create_vote_def Let_def split_beta)

section \<open>Checked votes\<close>

lemma no_vote_initiate: "votes_cast (snd (initiate_verifications E h b s)) = []"
proof -
  have "votes_cast (snd (initiate_cycle_proof_verification E h b t)) = []" for t
    unfolding initiate_cycle_proof_verification_def Let_def
    by (auto intro!: votes_cast_eq_Nil simp: cycle_proof_action_def Let_def)
  moreover have "votes_cast (snd (initiate_state_root_verification E h b t)) = []"
    "votes_cast (snd (initiate_transaction_root_verification h b t)) = []" for t
    by (simp_all add: initiate_state_root_verification_def initiate_transaction_root_verification_def Let_def)
  ultimately show ?thesis by (simp add: initiate_verifications_then then_do_simps)
qed

definition pending_content :: "bft_state \<Rightarrow> hash \<Rightarrow> block option" where
  "pending_content s h = (case hm_get (pending_blocks s) h of Some p \<Rightarrow> constructed_block p | None \<Rightarrow> None)"

lemma try_vote_casts:
  assumes "votes_cast (snd (try_vote_on_block E h height round s)) \<noteq> []"
  shows "\<not> hm_contains (voted_heights s) height"
    and "votes_cast (snd (try_vote_on_block E h height round s)) = [(height, round, h)]"
    and "hm_get (voted_heights (fst (try_vote_on_block E h height round s))) height = Some (h, round)"
    and "\<And>b. pending_content s h = Some b \<Longrightarrow>
       validate_deferrals_and_aborts b = None \<and> validate_transaction_ordering b = None"
proof -
  show lock: "\<not> hm_contains (voted_heights s) height"
    using assms by (auto simp: try_vote_on_block_def)
  show valid: "validate_deferrals_and_aborts b = None \<and> validate_transaction_ordering b = None"
    if "pending_content s h = Some b" for b
    using assms that lock unfolding try_vote_on_block_def pending_content_def by (auto split: if_splits)
  have "\<exists>t. try_vote_on_block E h height round s = create_vote E h height round t"
    using assms lock no_vote_initiate [of E h _ s]
    unfolding try_vote_on_block_def by (auto simp: split_beta split: option.splits if_splits)
  then show "votes_cast (snd (try_vote_on_block E h height round s)) = [(height, round, h)]"
    "hm_get (voted_heights (fst (try_vote_on_block E h height round s))) height = Some (h, round)"
    by (auto simp: hm_get_insert)
qed

section \<open>Votes cast by the verification callbacks\<close>

text \<open>A block whose only content to verify is its transaction root.\<close>

definition only_transactions :: "block \<Rightarrow> bool" where
  "only_transactions b \<longleftrightarrow> bl_deferred b = [] \<and> bl_certificates b = []"

lemma transaction_root_vote:
  assumes "hm_get (pending_blocks s) h = Some p" "constructed_block p = Some b"
    and "block_hash E b = h" "only_transactions b"
  shows "votes_cast (snd (on_transaction_root_verified E h True s)) = [(hd_height (pb_header p), hd_round (pb_header p), h)]"
    and "pending_blocks (fst (on_transaction_root_verified E h True s)) = pending_blocks s"
  using assms
  by (simp_all add: on_transaction_root_verified_def vote_if_verified_def block_verifications_complete_def
      only_transactions_def Let_def)

text \<open>A state root verification that has to wait for the local state is queued without any action.\<close>

lemma queued_state_root_vote:
  assumes pend: "hm_get (pending_blocks s) h = Some p" "constructed_block p = Some b" "block_hash E b = h"
    and certs: "bl_certificates b \<noteq> []" "bl_deferred b = []" "bl_aborted b = []" "all_transactions b = []"
    and fresh: "\<not> hm_contains (voted_heights s) height" "\<not> hm_contains (verified_state_roots s) h"
    and parent: "get_block_by_hash E s (hd_parent_hash (bl_header b)) = Some par"
      "hd_state_root (bl_header par) \<noteq> snd (last_committed_jmt_state s)"
    and idle: "\<not> hm_contains (state_root_verifications_in_flight s) h"
  shows "votes_cast (snd (try_vote_on_block E h height round s)) = [(height, round, h)]"
    and "\<not> hm_contains (verified_state_roots (fst (try_vote_on_block E h height round s))) h"
proof -
  have none: "bl_retry_transactions b = []" "bl_priority_transactions b = []" "bl_transactions b = []"
    using certs(4) by (simp_all add: all_transactions_def)
  have valid: "validate_deferrals_and_aborts b = None" "validate_transaction_ordering b = None"
    by (simp_all add: validate_deferrals_and_aborts_def validate_transaction_ordering_def or_else_def Let_def
        certs none)
  define t where "t = fst (initiate_verifications E h b s)"
  have init: "snd (initiate_verifications E h b s) = []" "verified_state_roots t = verified_state_roots s"
    using pend(3) parent idle
    by (auto simp: t_def initiate_verifications_then then_do_simps block_needs_cycle_proof_verification_def certs
        block_needs_transaction_root_verification_def transaction_count_def none
        initiate_state_root_verification_def Let_def)
  have "try_vote_on_block E h height round s = create_vote E h height round t"
    using pend fresh(1) valid init(1) by (simp add: try_vote_on_block_def split_beta t_def)
  then show "votes_cast (snd (try_vote_on_block E h height round s)) = [(height, round, h)]"
    "\<not> hm_contains (verified_state_roots (fst (try_vote_on_block E h height round s))) h"
    using init(2) fresh(2) by simp_all
qed

section \<open>Locks\<close>

lemma hm_get_fold_remove: "hm_get (fold hm_remove ks m) k = (if k \<in> set ks then None else hm_get m k)"
  by (induction ks arbitrary: m) auto

text \<open>A quorum certificate releases exactly the locks at or below its height.\<close>

lemma unlock_exactly:
  "\<not> qc_is_genesis qc \<Longrightarrow>
   hm_get (voted_heights (maybe_unlock_for_qc qc s)) k = (if k \<le> qc_height qc then None else hm_get (voted_heights s) k)"
proof -
  assume "\<not> qc_is_genesis qc"
  then have "hm_get (voted_heights (maybe_unlock_for_qc qc s)) k =
      (if k \<in> set (filter (\<lambda>h. h \<le> qc_height qc) (hm_keys (voted_heights s))) then None else hm_get (voted_heights s) k)"
    by (simp add: maybe_unlock_for_qc_def Let_def hm_get_fold_remove)
  then show ?thesis
    by (cases "hm_get (voted_heights s) k") (simp_all add: hm_keys_iff hm_contains_def)
qed

text \<open>A recorded vote silences later arrivals of the height.\<close>

lemma try_vote_silent:
  assumes "hm_contains (voted_heights s) height"
  shows "try_vote_on_block E h height round s = (s, [])"
  using assms by (simp add: try_vote_on_block_def)

end
