(* ===== verification/Epochs.thy ===== *)
theory Epochs
  imports Topology
begin

text \<open>
  Epoch configuration (\<open>crates/types/src/epoch.rs\<close>) and \<open>DynamicTopology\<close>
  (\<open>crates/types/src/topology.rs\<close>).  The \<open>RwLock\<close> around the dynamic state is not modelled:
  each method runs under the lock, so it is one function on the state.
\<close>

section \<open>Epochs, ratings, validators\<close>

type_synonym epoch_id = u64

definition epoch_next :: "epoch_id \<Rightarrow> epoch_id" where
  "epoch_next e = e + 1"

definition epoch_prev :: "epoch_id \<Rightarrow> epoch_id option" where
  "epoch_prev e = (if e > 0 then Some (e - 1) else None)"

definition DEFAULT_EPOCH_LENGTH :: u64 where
  "DEFAULT_EPOCH_LENGTH = 14400"

datatype validator_shard_state = Active | Waiting | ShufflingOut | Leaving

record validator_rating =
  vr_score :: u64
  vr_blocks_proposed :: u64
  vr_blocks_missed :: u64

definition rating_new :: validator_rating where
  "rating_new = \<lparr>vr_score = 50, vr_blocks_proposed = 0, vr_blocks_missed = 0\<rparr>"

definition update_with_epoch_performance :: "u64 \<Rightarrow> validator_rating \<Rightarrow> validator_rating" where
  "update_with_epoch_performance epoch_performance r =
     r\<lparr>vr_score := max 0 (min 100 ((vr_score r * 9 + epoch_performance) div 10))\<rparr>"

definition apply_equivocation_penalty :: "validator_rating \<Rightarrow> validator_rating" where
  "apply_equivocation_penalty r = r\<lparr>vr_score := saturating_sub (vr_score r) 50\<rparr>"

definition apply_missed_proposal_penalty :: "validator_rating \<Rightarrow> validator_rating" where
  "apply_missed_proposal_penalty r = r\<lparr>vr_score := saturating_sub (vr_score r) 10\<rparr>"

definition apply_sync_failure_penalty :: "validator_rating \<Rightarrow> validator_rating" where
  "apply_sync_failure_penalty r = r\<lparr>vr_score := saturating_sub (vr_score r) 10\<rparr>"

record global_validator_info =
  gv_validator_id :: validator_id
  gv_public_key :: public_key
  gv_voting_power :: u64
  gv_rating :: validator_rating
  gv_current_shard :: shard_group_id
  gv_state :: validator_shard_state
  gv_epochs_in_shard :: u64

definition global_validator_new :: "validator_id \<Rightarrow> public_key \<Rightarrow> u64 \<Rightarrow> shard_group_id
    \<Rightarrow> global_validator_info" where
  "global_validator_new v key voted shard =
     \<lparr>gv_validator_id = v, gv_public_key = key, gv_voting_power = voted, gv_rating = rating_new,
      gv_current_shard = shard, gv_state = Active, gv_epochs_in_shard = 0\<rparr>"

definition can_participate :: "global_validator_info \<Rightarrow> bool" where
  "can_participate v \<longleftrightarrow> gv_state v = Active"

definition is_shuffle_eligible :: "global_validator_info \<Rightarrow> u64 \<Rightarrow> bool" where
  "is_shuffle_eligible v min_epochs \<longleftrightarrow> gv_state v = Active \<and> gv_epochs_in_shard v \<ge> min_epochs"

section \<open>Committees and hash ranges\<close>

record shard_committee_config =
  scc_active_validators :: "validator_id list"
  scc_total_voting_power :: u64
  scc_target_size :: usize

definition shard_committee_config_new :: "validator_id list \<Rightarrow> (validator_id, u64) hmap
    \<Rightarrow> shard_committee_config" where
  "shard_committee_config_new validators voting_powers =
     \<lparr>scc_active_validators = validators,
      scc_total_voting_power = sum_list (List.map_filter (hm_get voting_powers) validators),
      scc_target_size = 100\<rparr>"

definition has_minimum_validators :: "shard_committee_config \<Rightarrow> usize \<Rightarrow> bool" where
  "has_minimum_validators c m \<longleftrightarrow> length (scc_active_validators c) \<ge> m"

record shard_hash_range =
  shr_shard_id :: shard_group_id
  hash_range_start :: u64
  hash_range_end :: u64

definition range_contains :: "shard_hash_range \<Rightarrow> u64 \<Rightarrow> bool" where
  "range_contains r hash_value \<longleftrightarrow> hash_value \<ge> hash_range_start r \<and> hash_value < hash_range_end r"

definition range_split :: "shard_hash_range \<Rightarrow> shard_group_id \<Rightarrow> shard_hash_range \<times> shard_hash_range" where
  "range_split r new_shard_id =
     (let midpoint = hash_range_start r + (hash_range_end r - hash_range_start r) div 2 in
      (\<lparr>shr_shard_id = shr_shard_id r, hash_range_start = hash_range_start r, hash_range_end = midpoint\<rparr>,
       \<lparr>shr_shard_id = new_shard_id, hash_range_start = midpoint, hash_range_end = hash_range_end r\<rparr>))"

section \<open>EpochConfig\<close>

record epoch_config =
  ec_epoch_id :: epoch_id
  ec_num_shards :: u64
  ec_shard_committees :: "(shard_group_id, shard_committee_config) hmap"
  ec_waiting_validators :: "(shard_group_id, validator_id list) hmap"
  ec_validator_set :: validator_set
  ec_randomness_seed :: hash
  ec_start_heights :: "(shard_group_id, block_height) hmap"
  ec_expected_end_heights :: "(shard_group_id, block_height) hmap"
  ec_shard_ranges :: "shard_hash_range list"

text \<open>\<open>entry(shard).or_default().push(v)\<close> for each validator in turn.\<close>

definition group_by_shard :: "u64 \<Rightarrow> validator_set \<Rightarrow> (shard_group_id, validator_id list) hmap" where
  "group_by_shard n vs = fold (\<lambda>v m.
      let shard = vi_validator_id v mod n in
      hm_insert shard ((case hm_get m shard of None \<Rightarrow> [] | Some l \<Rightarrow> l) @ [vi_validator_id v]) m)
    (vs_validators vs) hm_empty"

definition genesis_range :: "u64 \<Rightarrow> u64 \<Rightarrow> shard_hash_range" where
  "genesis_range n shard_id =
     (let range_size = u64_MAX div n; start = shard_id * range_size;
          stop = (if shard_id = n - 1 then u64_MAX else (shard_id + 1) * range_size)
      in \<lparr>shr_shard_id = shard_id, hash_range_start = start, hash_range_end = stop\<rparr>)"

definition genesis_shard :: "u64 \<Rightarrow> (validator_id, u64) hmap \<Rightarrow> u64
    \<Rightarrow> (shard_group_id, validator_id list) hmap \<times> epoch_config
    \<Rightarrow> (shard_group_id, validator_id list) hmap \<times> epoch_config" where
  "genesis_shard n voting_powers shard_id = (\<lambda>(shard_validators, ec).
     let validators = (case hm_get shard_validators shard_id of None \<Rightarrow> [] | Some l \<Rightarrow> l) in
     (hm_remove shard_id shard_validators,
      ec\<lparr>ec_shard_committees := hm_insert shard_id
            (shard_committee_config_new validators voting_powers) (ec_shard_committees ec),
         ec_start_heights := hm_insert shard_id 0 (ec_start_heights ec),
         ec_expected_end_heights := hm_insert shard_id DEFAULT_EPOCH_LENGTH (ec_expected_end_heights ec),
         ec_shard_ranges := ec_shard_ranges ec @ [genesis_range n shard_id]\<rparr>))"

definition epoch_genesis :: "u64 \<Rightarrow> validator_set \<Rightarrow> epoch_config" where
  "epoch_genesis n vs =
     (let voting_powers = hm_collect (map (\<lambda>v. (vi_validator_id v, vi_voting_power v)) (vs_validators vs));
          initial = \<lparr>ec_epoch_id = 0, ec_num_shards = n, ec_shard_committees = hm_empty,
            ec_waiting_validators = hm_empty, ec_validator_set = vs, ec_randomness_seed = Hash_ZERO,
            ec_start_heights = hm_empty, ec_expected_end_heights = hm_empty, ec_shard_ranges = []\<rparr>
      in snd (fold (genesis_shard n voting_powers) (u64_range n) (group_by_shard n vs, initial)))"

definition find_validator_shard :: "epoch_config \<Rightarrow> validator_id \<Rightarrow> shard_group_id option" where
  "find_validator_shard ec v =
     (case List.find (\<lambda>(_, c). v \<in> set (scc_active_validators c)) (hm_entries (ec_shard_committees ec)) of
        Some (shard, _) \<Rightarrow> Some shard
      | None \<Rightarrow>
         (case List.find (\<lambda>(_, waiting). v \<in> set waiting) (hm_entries (ec_waiting_validators ec)) of
            Some (shard, _) \<Rightarrow> Some shard
          | None \<Rightarrow> None))"

definition is_validator_waiting :: "epoch_config \<Rightarrow> validator_id \<Rightarrow> shard_group_id \<Rightarrow> bool" where
  "is_validator_waiting ec v shard =
     (case hm_get (ec_waiting_validators ec) shard of Some waiting \<Rightarrow> v \<in> set waiting | None \<Rightarrow> False)"

definition hash_range_for_shard :: "epoch_config \<Rightarrow> shard_group_id \<Rightarrow> shard_hash_range option" where
  "hash_range_for_shard ec shard = List.find (\<lambda>r. shr_shard_id r = shard) (ec_shard_ranges ec)"

definition shard_of_value :: "epoch_config \<Rightarrow> u64 \<Rightarrow> shard_group_id" where
  "shard_of_value ec hash_value =
     (case List.find (\<lambda>r. range_contains r hash_value) (ec_shard_ranges ec) of
        Some r \<Rightarrow> shr_shard_id r
      | None \<Rightarrow> hash_value mod ec_num_shards ec)"


record global_consensus_config =
  gc_epoch_length :: u64
  gc_shuffle_percentage :: u64
  gc_min_validators_per_shard :: usize
  gc_max_validators_per_shard :: usize
  gc_min_epochs_before_shuffle :: u64

definition global_consensus_default :: global_consensus_config where
  "global_consensus_default = \<lparr>gc_epoch_length = DEFAULT_EPOCH_LENGTH, gc_shuffle_percentage = 20,
     gc_min_validators_per_shard = 4, gc_max_validators_per_shard = 400,
     gc_min_epochs_before_shuffle = 1\<rparr>"

definition shuffle_count :: "global_consensus_config \<Rightarrow> usize \<Rightarrow> usize" where
  "shuffle_count g committee_size = max (committee_size * unat (gc_shuffle_percentage g) div 100) 1"

section \<open>DynamicTopology\<close>

record dynamic_topology =
  dt_local_validator_id :: validator_id
  dt_current :: epoch_config
  dt_next :: "epoch_config option"
  dt_local_shard :: shard_group_id
  dt_local_state :: validator_shard_state
  dt_validator_info :: "(validator_id, validator_info_internal) hmap"
  dt_splitting_shards :: "shard_group_id hset"

datatype dynamic_topology_error = NoNextEpoch | ValidatorNotInEpoch validator_id

definition from_epoch_config :: "validator_id \<Rightarrow> epoch_config
    \<Rightarrow> dynamic_topology_error + dynamic_topology" where
  "from_epoch_config v epoch =
     (case find_validator_shard epoch v of
        None \<Rightarrow> Inl (ValidatorNotInEpoch v)
      | Some shard \<Rightarrow>
          Inr \<lparr>dt_local_validator_id = v, dt_current = epoch, dt_next = None, dt_local_shard = shard,
            dt_local_state = (if is_validator_waiting epoch v shard then Waiting else Active),
            dt_validator_info = info_of_set (ec_validator_set epoch), dt_splitting_shards = hm_empty\<rparr>)"

definition set_next_epoch :: "epoch_config \<Rightarrow> dynamic_topology \<Rightarrow> dynamic_topology" where
  "set_next_epoch next_config d = d\<lparr>dt_next := Some next_config\<rparr>"

definition transition_to_next_epoch ::
    "dynamic_topology \<Rightarrow> dynamic_topology \<times> (dynamic_topology_error + unit)" where
  "transition_to_next_epoch d =
     (case dt_next d of
        None \<Rightarrow> (d, Inl NoNextEpoch)
      | Some next_config \<Rightarrow>
          let d1 = d\<lparr>dt_next := None\<rparr> in
          (case find_validator_shard next_config (dt_local_validator_id d) of
             None \<Rightarrow> (d1, Inl (ValidatorNotInEpoch (dt_local_validator_id d)))
           | Some new_shard \<Rightarrow>
               (d1\<lparr>dt_validator_info := info_of_set (ec_validator_set next_config),
                   dt_local_shard := new_shard,
                   dt_local_state := (if is_validator_waiting next_config (dt_local_validator_id d) new_shard
                                      then Waiting else Active),
                   dt_current := next_config,
                   dt_splitting_shards := hm_empty\<rparr>, Inr ())))"

definition mark_shard_splitting :: "shard_group_id \<Rightarrow> dynamic_topology \<Rightarrow> dynamic_topology" where
  "mark_shard_splitting shard d = d\<lparr>dt_splitting_shards := hs_insert shard (dt_splitting_shards d)\<rparr>"

definition clear_shard_splitting :: "shard_group_id \<Rightarrow> dynamic_topology \<Rightarrow> dynamic_topology" where
  "clear_shard_splitting shard d = d\<lparr>dt_splitting_shards := hm_remove shard (dt_splitting_shards d)\<rparr>"

definition dyn_committee :: "dynamic_topology \<Rightarrow> shard_group_id \<Rightarrow> validator_id list" where
  "dyn_committee d shard =
     (case hm_get (ec_shard_committees (dt_current d)) shard of
        Some c \<Rightarrow> scc_active_validators c | None \<Rightarrow> [])"

definition dyn_power_for_shard :: "dynamic_topology \<Rightarrow> shard_group_id \<Rightarrow> u64" where
  "dyn_power_for_shard d shard =
     (case hm_get (ec_shard_committees (dt_current d)) shard of
        Some c \<Rightarrow> scc_total_voting_power c | None \<Rightarrow> 0)"

definition dyn_voting_power :: "dynamic_topology \<Rightarrow> validator_id \<Rightarrow> u64 option" where
  "dyn_voting_power d v = map_option vii_voting_power (hm_get (dt_validator_info d) v)"




section \<open>The genesis configuration\<close>

abbreviation or_default :: "'a list option \<Rightarrow> 'a list" where
  "or_default x \<equiv> (case x of None \<Rightarrow> [] | Some l \<Rightarrow> l)"

lemma group_by_shard_get:
  "or_default (hm_get (group_by_shard n vs) s)
     = map vi_validator_id (filter (\<lambda>v. vi_validator_id v mod n = s) (vs_validators vs))"
proof -
  have gen: "or_default (hm_get (fold (\<lambda>v m.
        let shard = vi_validator_id v mod n in
        hm_insert shard (or_default (hm_get m shard) @ [vi_validator_id v]) m) xs m) s)
      = or_default (hm_get m s) @ map vi_validator_id (filter (\<lambda>v. vi_validator_id v mod n = s) xs)"
    for xs m
    by (induction xs arbitrary: m) (auto simp: Let_def hm_get_insert)
  show ?thesis
    unfolding group_by_shard_def using gen [of "vs_validators vs" hm_empty] by simp
qed

lemma genesis_fold:
  assumes "distinct xs"
  shows "hm_get (ec_shard_committees (snd (fold (genesis_shard n p) xs (sv, ec)))) s
       = (if s \<in> set xs then Some (shard_committee_config_new (or_default (hm_get sv s)) p)
          else hm_get (ec_shard_committees ec) s)"
    and "ec_shard_ranges (snd (fold (genesis_shard n p) xs (sv, ec)))
       = ec_shard_ranges ec @ map (genesis_range n) xs"
    and "ec_num_shards (snd (fold (genesis_shard n p) xs (sv, ec))) = ec_num_shards ec"
    and "ec_validator_set (snd (fold (genesis_shard n p) xs (sv, ec))) = ec_validator_set ec"
    and "ec_waiting_validators (snd (fold (genesis_shard n p) xs (sv, ec))) = ec_waiting_validators ec"
  using assms
  by (induction xs arbitrary: sv ec) (auto simp: genesis_shard_def Let_def hm_get_insert)

lemma epoch_genesis_committee:
  "hm_get (ec_shard_committees (epoch_genesis n vs)) s =
     (if s < n then Some (shard_committee_config_new (map vi_validator_id (shard_members n vs s))
        (hm_collect (map (\<lambda>v. (vi_validator_id v, vi_voting_power v)) (vs_validators vs)))) else None)"
  unfolding epoch_genesis_def Let_def
  by (simp add: genesis_fold(1) [OF u64_range_distinct] u64_range_set group_by_shard_get shard_members_def)

lemma epoch_genesis_simps [simp]:
  "ec_shard_ranges (epoch_genesis n vs) = map (genesis_range n) (u64_range n)"
  "ec_num_shards (epoch_genesis n vs) = n"
  "ec_validator_set (epoch_genesis n vs) = vs"
  "ec_waiting_validators (epoch_genesis n vs) = hm_empty"
  unfolding epoch_genesis_def Let_def
  by (simp_all add: genesis_fold(2-) [OF u64_range_distinct])

section \<open>Hash ranges\<close>

lemma genesis_range_end:
  "hash_range_end (genesis_range n k) = (if k = n - 1 then u64_MAX else (k + 1) * (u64_MAX div n))"
  by (simp add: genesis_range_def Let_def)

lemma unat_genesis_range:
  assumes "0 < n" "k < n"
  defines "rs \<equiv> 18446744073709551615 div unat n"
  shows "unat (hash_range_start (genesis_range n k)) = unat k * rs"
    and "unat (hash_range_end (genesis_range n k))
       = (if unat k = unat n - 1 then 18446744073709551615 else (unat k + 1) * rs)"
proof -
  have n: "0 < unat n" and k: "unat k < unat n"
    using assms(1,2) by (simp_all add: word_less_nat_alt)
  have rs: "unat (u64_MAX div n) = rs" unfolding rs_def unat_div unat_u64_MAX by (rule refl)
  have "unat n * rs \<le> 18446744073709551615" by (simp add: rs_def)
  moreover have "(unat k + 1) * rs \<le> unat n * rs" using k by (intro mult_le_mono1) simp
  ultimately have bound: "(unat k + 1) * rs \<le> 18446744073709551615" by linarith
  then have bound': "unat k * rs \<le> 18446744073709551615" by simp
  show "unat (hash_range_start (genesis_range n k)) = unat k * rs"
    using bound' unat_mult_u64 [of k "u64_MAX div n", unfolded rs]
    by (simp only: genesis_range_def Let_def shard_hash_range.simps)
  have k1: "unat (k + 1) = unat k + 1"
    using unat_add_u64 [of k 1] k unat_less_u64 [of n] by simp
  have last: "k = n - 1 \<longleftrightarrow> unat k = unat n - 1"
    using n unat_minus_one [of n] unat_gt_0 [of n] word_unat_eq_iff [of k "n - 1"] by simp
  show "unat (hash_range_end (genesis_range n k))
      = (if unat k = unat n - 1 then 18446744073709551615 else (unat k + 1) * rs)"
  proof (cases "k = n - 1")
    case True
    then have "unat k = unat n - 1" using last by blast
    then show ?thesis unfolding genesis_range_end if_P [OF True] unat_u64_MAX by simp
  next
    case False
    then have "unat k \<noteq> unat n - 1" using last by blast
    moreover have "unat ((k + 1) * (u64_MAX div n)) = (unat k + 1) * rs"
      using bound unat_mult_u64 [of "k + 1" "u64_MAX div n", unfolded k1 rs] by (simp only:)
    ultimately show ?thesis unfolding genesis_range_end if_not_P [OF False] by (simp only: if_False)
  qed
qed

lemma range_contains_iff:
  assumes "0 < n" "k < n"
  defines "rs \<equiv> 18446744073709551615 div unat n"
  shows "range_contains (genesis_range n k) h \<longleftrightarrow> unat k * rs \<le> unat h
     \<and> unat h < (if unat k = unat n - 1 then 18446744073709551615 else (unat k + 1) * rs)"
  using unat_genesis_range [OF assms(1,2)]
  by (simp only: range_contains_def word_le_nat_alt word_less_nat_alt rs_def)

lemma genesis_range_covers:
  assumes n: "0 < n" and h: "h \<noteq> u64_MAX"
  shows "\<exists>k < n. range_contains (genesis_range n k) h"
proof -
  define rs where "rs = 18446744073709551615 div unat n"
  define q where "q = min (unat h div rs) (unat n - 1)"
  have n': "0 < unat n" using n by (simp add: word_less_nat_alt)
  have q: "q < unat n" using n' by (simp add: q_def min_def) linarith
  have rs0: "0 < rs" using n' unat_less_u64 [of n] by (simp add: rs_def div_greater_zero_iff)
  have k: "unat (word_of_nat q :: u64) = q" by (rule unat_of_small [OF q])
  have hM: "unat h < 18446744073709551615"
    using h unat_less_u64 [of h] word_unat_eq_iff [of h u64_MAX] unat_u64_MAX by simp
  have "q * rs \<le> unat h div rs * rs" by (simp add: q_def)
  then have low: "q * rs \<le> unat h" using div_times_less_eq_dividend [of "unat h" rs] by linarith
  have high: "unat h < (q + 1) * rs" if "q \<noteq> unat n - 1"
  proof -
    have "q = unat h div rs" using that by (simp add: q_def min_def split: if_splits)
    then show ?thesis using dividend_less_div_times [OF rs0, of "unat h"] by (simp add: algebra_simps)
  qed
  have "word_of_nat q < n" using q k by (simp add: word_less_nat_alt)
  moreover from this have "range_contains (genesis_range n (word_of_nat q)) h"
    using low high hM by (simp only: range_contains_iff [OF n] k rs_def [symmetric]) simp
  ultimately show ?thesis by blast
qed

lemma genesis_range_order:
  assumes n: "0 < n" and "j < n" "k < n" and "unat j < unat k"
    and "range_contains (genesis_range n j) h" "range_contains (genesis_range n k) h"
  shows False
proof -
  define rs where "rs = 18446744073709551615 div unat n"
  have "unat j + 1 \<le> unat k" "unat j \<noteq> unat n - 1" using assms(3,4) by (auto simp: word_less_nat_alt)
  then have "unat h < (unat j + 1) * rs" "unat k * rs \<le> unat h"
    using assms(5,6) by (simp_all only: range_contains_iff [OF n assms(2)] range_contains_iff [OF n assms(3)]
        rs_def [symmetric]) simp_all
  moreover have "(unat j + 1) * rs \<le> unat k * rs"
    using \<open>unat j + 1 \<le> unat k\<close> by (rule mult_le_mono1)
  ultimately show False by linarith
qed

lemma genesis_range_unique:
  assumes "0 < n" "j < n" "k < n"
    and "range_contains (genesis_range n j) h" "range_contains (genesis_range n k) h"
  shows "j = k"
  using genesis_range_order [OF assms(1) _ _ _ assms(4,5)] genesis_range_order [OF assms(1) _ _ _ assms(5,4)]
    assms(2,3) by (meson linorder_neqE_nat word_unat_eq_iff)

lemma no_range_contains_max: "\<not> range_contains r u64_MAX"
  using unat_less_u64 [of "hash_range_end r"]
  by (simp add: range_contains_def word_less_nat_alt unat_u64_MAX not_less)

lemma range_split_contains:
  assumes "hash_range_start r \<le> hash_range_end r" and "range_split r s = (a, b)"
  shows "range_contains r h \<longleftrightarrow> range_contains a h \<noteq> range_contains b h"
    and "\<not> (range_contains a h \<and> range_contains b h)"
proof -
  let ?lo = "hash_range_start r" and ?hi = "hash_range_end r"
  define m where "m = ?lo + (?hi - ?lo) div 2"
  have "unat (?hi - ?lo) = unat ?hi - unat ?lo" using assms(1) by (simp add: unat_sub)
  then have "unat m = unat ?lo + (unat ?hi - unat ?lo) div 2"
    using unat_less_u64 [of ?hi] assms(1)
    by (simp add: m_def unat_word_ariths unat_div word_le_nat_alt)
  then have m: "?lo \<le> m" "m \<le> ?hi" using assms(1) by (simp_all add: word_le_nat_alt)
  have ab: "a = \<lparr>shr_shard_id = shr_shard_id r, hash_range_start = ?lo, hash_range_end = m\<rparr>"
      "b = \<lparr>shr_shard_id = s, hash_range_start = m, hash_range_end = ?hi\<rparr>"
    using assms(2) by (auto simp: range_split_def Let_def m_def)
  show "range_contains r h \<longleftrightarrow> range_contains a h \<noteq> range_contains b h"
      "\<not> (range_contains a h \<and> range_contains b h)"
    using m unfolding ab range_contains_def by auto
qed

lemma find_unique:
  assumes "x \<in> set xs" "P x" "\<And>y. y \<in> set xs \<Longrightarrow> P y \<Longrightarrow> y = x"
  shows "List.find P xs = Some x"
proof (cases "List.find P xs")
  case None
  then show ?thesis using assms(1,2) unfolding find_None_iff by blast
next
  case (Some y)
  then show ?thesis using assms(3) find_in_set [OF Some] by simp
qed

lemma genesis_range_id [simp]: "shr_shard_id (genesis_range n k) = k"
  by (simp add: genesis_range_def Let_def)

lemma shard_of_value_in_range:
  assumes "0 < n"
  shows "shard_of_value (epoch_genesis n vs) h < n"
proof (cases "List.find (\<lambda>r. range_contains r h) (map (genesis_range n) (u64_range n))")
  case None
  then show ?thesis using assms by (simp add: shard_of_value_def word_mod_less_divisor)
next
  case (Some r)
  then have "r \<in> set (map (genesis_range n) (u64_range n))" by (blast dest: find_in_set)
  then obtain k where "k \<in> set (u64_range n)" "r = genesis_range n k" by auto
  then show ?thesis using Some by (simp add: shard_of_value_def u64_range_set)
qed

lemma shard_of_value_unique:
  assumes "0 < n" "k < n" "range_contains (genesis_range n k) h"
  shows "shard_of_value (epoch_genesis n vs) h = k"
proof -
  have "List.find (\<lambda>r. range_contains r h) (map (genesis_range n) (u64_range n)) = Some (genesis_range n k)"
  proof (rule find_unique)
    show "genesis_range n k \<in> set (map (genesis_range n) (u64_range n))"
      using assms(2) by (simp add: u64_range_set)
    show "range_contains (genesis_range n k) h" by (fact assms(3))
    fix r assume "r \<in> set (map (genesis_range n) (u64_range n))" "range_contains r h"
    then obtain j where "j < n" "r = genesis_range n j" by (auto simp: u64_range_set)
    with \<open>range_contains r h\<close> show "r = genesis_range n k"
      using genesis_range_unique [OF assms(1) _ assms(2) _ assms(3)] by simp
  qed
  then show ?thesis by (simp add: shard_of_value_def)
qed

section \<open>Dynamic topologies as committee providers\<close>

definition committee_wf :: "validator_set \<Rightarrow> shard_committee_config \<Rightarrow> bool" where
  "committee_wf vs c \<longleftrightarrow> distinct (scc_active_validators c)
     \<and> set (scc_active_validators c) \<subseteq> vi_validator_id ` set (vs_validators vs)
     \<and> scc_total_voting_power c =
         sum_list (map (\<lambda>v. vii_voting_power (the (hm_get (info_of_set vs) v))) (scc_active_validators c))"

definition epoch_wf :: "epoch_config \<Rightarrow> bool" where
  "epoch_wf ec \<longleftrightarrow> vs_wf (ec_validator_set ec)
     \<and> (\<forall>s c. hm_get (ec_shard_committees ec) s = Some c \<longrightarrow> committee_wf (ec_validator_set ec) c)"

definition dyn_valid :: "dynamic_topology \<Rightarrow> bool" where
  "dyn_valid d \<longleftrightarrow> epoch_wf (dt_current d) \<and> (\<forall>e. dt_next d = Some e \<longrightarrow> epoch_wf e)
     \<and> dt_validator_info d = info_of_set (ec_validator_set (dt_current d))"

lemma info_of_set_known:
  "vs_wf vs \<Longrightarrow> v \<in> vi_validator_id ` set (vs_validators vs) \<Longrightarrow> hm_get (info_of_set vs) v \<noteq> None"
  using info_of_set_get by fastforce

interpretation dyn_top: committee_provider dyn_valid dyn_committee dyn_power_for_shard dyn_voting_power
proof
  fix t s v
  assume "dyn_valid t"
  then have wf: "vs_wf (ec_validator_set (dt_current t))"
    and c: "\<And>c. hm_get (ec_shard_committees (dt_current t)) s = Some c \<Longrightarrow>
          committee_wf (ec_validator_set (dt_current t)) c"
    and info: "dt_validator_info t = info_of_set (ec_validator_set (dt_current t))"
    by (auto simp: dyn_valid_def epoch_wf_def)
  show "distinct (dyn_committee t s)"
    using c by (auto simp: dyn_committee_def committee_wf_def split: option.splits)
  have known: "hm_get (info_of_set (ec_validator_set (dt_current t))) v \<noteq> None"
    if "v \<in> set (dyn_committee t s)" for v
    using that c wf info_of_set_known by (force simp: dyn_committee_def committee_wf_def split: option.splits)
  then show "v \<in> set (dyn_committee t s) \<Longrightarrow> dyn_voting_power t v \<noteq> None"
    by (auto simp: dyn_voting_power_def info)
  have powers: "map (\<lambda>v. the (dyn_voting_power t v)) (dyn_committee t s)
     = map (\<lambda>v. vii_voting_power (the (hm_get (info_of_set (ec_validator_set (dt_current t))) v))) (dyn_committee t s)"
    using known by (auto simp: dyn_voting_power_def info option.map_sel)
  show "dyn_power_for_shard t s = sum_list (map (\<lambda>v. the (dyn_voting_power t v)) (dyn_committee t s))"
    unfolding powers using c by (auto simp: dyn_power_for_shard_def dyn_committee_def committee_wf_def split: option.splits)
qed

lemma map_filter_known:
  "(\<And>v. v \<in> set vs \<Longrightarrow> f v = Some (g v)) \<Longrightarrow> List.map_filter f vs = map g vs"
  by (induction vs) (auto simp: List.map_filter_simps)

lemma epoch_genesis_wf:
  assumes wf: "vs_wf vs"
  shows "epoch_wf (epoch_genesis n vs)"
proof -
  let ?powers = "hm_collect (map (\<lambda>v. (vi_validator_id v, vi_voting_power v)) (vs_validators vs))"
  have powers: "hm_get ?powers (vi_validator_id v) = Some (vi_voting_power v)"
    if "v \<in> set (vs_validators vs)" for v
  proof -
    have "distinct (map fst (map (\<lambda>v. (vi_validator_id v, vi_voting_power v)) (vs_validators vs)))"
      using wf by (simp add: vs_wf_def comp_def)
    then show ?thesis
      using that unfolding hm_get_collect_distinct [OF \<open>distinct _\<close>]
      by (intro map_of_is_SomeI) auto
  qed
  have "committee_wf vs (shard_committee_config_new (map vi_validator_id (shard_members n vs s)) ?powers)"
    for s
  proof -
    let ?m = "shard_members n vs s"
    have sub: "\<And>v. v \<in> set ?m \<Longrightarrow> v \<in> set (vs_validators vs)" using shard_members_sub by blast
    have "List.map_filter (hm_get ?powers) (map vi_validator_id ?m) = map vi_voting_power ?m"
    proof -
      have "List.map_filter (\<lambda>v. hm_get ?powers (vi_validator_id v)) ?m = map vi_voting_power ?m"
        using powers sub by (intro map_filter_known) blast
      then show ?thesis by (simp add: List.map_filter_def filter_map comp_def)
    qed
    moreover have "map (\<lambda>v. vii_voting_power (the (hm_get (info_of_set vs) v))) (map vi_validator_id ?m)
        = map vi_voting_power ?m"
      using info_of_set_get [OF wf] sub by simp
    moreover have "distinct (map vi_validator_id ?m)"
      using wf by (simp add: shard_members_def vs_wf_def distinct_map_filter)
    ultimately show ?thesis
      using sub unfolding committee_wf_def shard_committee_config_new_def
      by (auto simp only: shard_committee_config.simps set_map)
  qed
  then show ?thesis
    using wf by (auto simp: epoch_wf_def epoch_genesis_committee split: if_splits)
qed

text \<open>The operations of a dynamic topology keep it valid, given well-formed configurations.\<close>

lemma dyn_valid_from_epoch_config:
  "epoch_wf ec \<Longrightarrow> from_epoch_config v ec = Inr d \<Longrightarrow> dyn_valid d"
  by (auto simp: from_epoch_config_def dyn_valid_def split: option.splits)

lemma dyn_valid_set_next: "dyn_valid d \<Longrightarrow> epoch_wf ec \<Longrightarrow> dyn_valid (set_next_epoch ec d)"
  by (simp add: set_next_epoch_def dyn_valid_def)

lemma dyn_valid_transition: "dyn_valid d \<Longrightarrow> dyn_valid (fst (transition_to_next_epoch d))"
  by (auto simp: transition_to_next_epoch_def dyn_valid_def Let_def split: option.splits)

lemma dyn_valid_splitting:
  "dyn_valid d \<Longrightarrow> dyn_valid (mark_shard_splitting s d)"
  "dyn_valid d \<Longrightarrow> dyn_valid (clear_shard_splitting s d)"
  by (auto simp: mark_shard_splitting_def clear_shard_splitting_def dyn_valid_def)

section \<open>Ratings\<close>

lemma rating_bound: "vr_score (update_with_epoch_performance p r) \<le> 100"
  by (simp add: update_with_epoch_performance_def)

section \<open>Properties\<close>

text \<open>
  C29: the hash ranges of the genesis configuration partition the 64-bit values: each value lies
  in the range of exactly one shard, which is the shard the lookup returns.  The largest value
  is the exception, since the end of a range is exclusive: it is in no range at all, and the
  lookup falls back to the value modulo the number of shards.
\<close>

theorem genesis_ranges_partition:
  assumes "0 < n"
  shows "(h \<noteq> u64_MAX \<longleftrightarrow> (\<exists>!k. k < n \<and> range_contains (genesis_range n k) h))
    \<and> (k < n \<and> range_contains (genesis_range n k) h \<longrightarrow> shard_of_value (epoch_genesis n vs) h = k)
    \<and> shard_of_value (epoch_genesis n vs) h < n"
  using genesis_range_covers [OF assms, of h] genesis_range_unique [OF assms] no_range_contains_max
    shard_of_value_unique [OF assms] shard_of_value_in_range [OF assms] by blast

theorem genesis_ranges_partition_witness:
  "shard_of_value (epoch_genesis 2 four_validators) 5 < 2 \<and> \<not> (\<exists>!k. k < 2 \<and> range_contains (genesis_range 2 k) u64_MAX)"
  using genesis_ranges_partition [of 2 5 0 four_validators] genesis_ranges_partition [of 2 u64_MAX 0 four_validators]
  by auto

text \<open>
  C37: splitting a shard cuts its hash range into two that together hold exactly the values of
  the old one and have none in common; the left one keeps the shard's number.
\<close>

theorem range_split_partitions:
  assumes "hash_range_start r \<le> hash_range_end r"
  shows "(range_contains r h \<longleftrightarrow> range_contains (fst (range_split r s)) h \<or> range_contains (snd (range_split r s)) h)
    \<and> \<not> (range_contains (fst (range_split r s)) h \<and> range_contains (snd (range_split r s)) h)
    \<and> shr_shard_id (fst (range_split r s)) = shr_shard_id r \<and> shr_shard_id (snd (range_split r s)) = s"
proof -
  obtain a b where ab: "range_split r s = (a, b)" by fastforce
  then have "shr_shard_id a = shr_shard_id r" "shr_shard_id b = s" by (auto simp: range_split_def Let_def)
  then show ?thesis using range_split_contains [OF assms ab, of h] ab by auto
qed

theorem range_split_partitions_witness:
  "range_contains (snd (range_split \<lparr>shr_shard_id = 0, hash_range_start = 0, hash_range_end = 100\<rparr> 9)) 50
   \<and> \<not> range_contains (fst (range_split \<lparr>shr_shard_id = 0, hash_range_start = 0, hash_range_end = 100\<rparr> 9)) 50"
  using range_split_partitions [of "\<lparr>shr_shard_id = 0, hash_range_start = 0, hash_range_end = 100\<rparr>" 50 9]
  by (simp add: range_contains_def range_split_def)

section \<open>The place of the local validator\<close>



lemma genesis_validator_shard:
  assumes "0 < n" "v \<in> vi_validator_id ` set (vs_validators vs)"
  shows "find_validator_shard (epoch_genesis n vs) v = Some (v mod n)"
proof -
  let ?C = "hm_entries (ec_shard_committees (epoch_genesis n vs))"
  have member: "hm_get (ec_shard_committees (epoch_genesis n vs)) s = Some c \<and> v \<in> set (scc_active_validators c) \<Longrightarrow> s = v mod n" for s c
    by (auto simp: epoch_genesis_committee shard_committee_config_new_def shard_members_def split: if_splits)
  have "v mod n < n" using assms(1) by (simp add: word_mod_less_divisor)
  then obtain c where c: "(v mod n, c) \<in> set ?C" "v \<in> set (scc_active_validators c)"
    using assms(2) by (auto simp: hm_entries_iff epoch_genesis_committee shard_committee_config_new_def shard_members_def)
  then have "List.find (\<lambda>(_, c). v \<in> set (scc_active_validators c)) ?C \<noteq> None"
    unfolding find_None_iff by auto
  then obtain s c' where "List.find (\<lambda>(_, c). v \<in> set (scc_active_validators c)) ?C = Some (s, c')" by auto
  moreover from this have "s = v mod n" using find_in_set by (fastforce simp: hm_entries_iff intro: member)
  ultimately show ?thesis by (simp add: find_validator_shard_def)
qed





text \<open>
  C27: the topology made from the genesis configuration is consistent, for any validators with
  distinct identifiers: the local validator is an active member of the shard its identifier
  gives modulo the number of shards; every shard's committee are exactly the validators so
  assigned, without duplicates; the power of every member is known, and the power of a shard is
  the sum of the powers of its members.
\<close>

theorem genesis_topology_consistent:
  assumes "vs_wf vs" "0 < n" "v \<in> vi_validator_id ` set (vs_validators vs)"
  shows "\<exists>d. from_epoch_config v (epoch_genesis n vs) = Inr d
    \<and> dt_local_shard d = v mod n \<and> dt_local_state d = Active \<and> v \<in> set (dyn_committee d (v mod n))
    \<and> (\<forall>s. distinct (dyn_committee d s)
         \<and> set (dyn_committee d s) = {w \<in> vi_validator_id ` set (vs_validators vs). w mod n = s}
         \<and> list_all (\<lambda>w. dyn_voting_power d w \<noteq> None) (dyn_committee d s)
         \<and> dyn_power_for_shard d s = sum_list (map (\<lambda>w. the (dyn_voting_power d w)) (dyn_committee d s)))"
proof -
  have less: "w mod n < n" for w using assms(2) by (simp add: word_mod_less_divisor)
  obtain d where d: "from_epoch_config v (epoch_genesis n vs) = Inr d"
    and shard: "dt_local_shard d = v mod n" and act: "dt_local_state d = Active"
    and cur: "dt_current d = epoch_genesis n vs"
    by (simp add: from_epoch_config_def genesis_validator_shard [OF assms(2,3)] is_validator_waiting_def)
  have valid: "dyn_valid d" by (rule dyn_valid_from_epoch_config [OF epoch_genesis_wf [OF assms(1)] d])
  have members: "set (dyn_committee d s) = {w \<in> vi_validator_id ` set (vs_validators vs). w mod n = s}" for s
    using less by (auto simp: dyn_committee_def cur epoch_genesis_committee shard_committee_config_new_def shard_members_def)
  then have "v \<in> set (dyn_committee d (v mod n))" using assms(3) by simp
  then show ?thesis
    using d shard act members dyn_top.committee_distinct [OF valid] dyn_top.member_known [OF valid] dyn_top.total_is_sum [OF valid]
    by (intro exI [of _ d]) (simp add: list_all_iff)
qed

theorem genesis_topology_consistent_witness:
  "\<exists>d. from_epoch_config 3 (epoch_genesis 2 four_validators) = Inr d \<and> dt_local_shard d = 1
     \<and> set (dyn_committee d 1) = {1, 3}"
proof -
  have ids: "vi_validator_id ` set (vs_validators four_validators) = {0, 1, 2, 3}" by code_simp
  have "{w \<in> {0, 1, 2, 3 :: u64}. w mod 2 = 1} = {1, 3}" by auto
  then show ?thesis
    using genesis_topology_consistent [OF four_validators_wf, of 2 3] unfolding ids by (auto 0 3)
qed



end
