(* ===== verification/Scenarios.thy ===== *)
theory Scenarios
  imports Bft_Machine Vote_Rules Epochs
begin

text \<open>
  A small concrete network on which the properties are evaluated: a hash function, one
  validator in one shard, a node started from nothing, and a few blocks.
\<close>

definition demo_env :: crypto_env where
  "demo_env = \<lparr>env_blake3 = (\<lambda>b. if b = [1] then 2 else if b = [2] then 3 else 1),
     env_encode_header = (\<lambda>h. [ucast (hd_height h + hd_round h)]), env_sign = (\<lambda>_ _. [])\<rparr>"

definition demo_validators :: validator_set where
  "demo_validators = vs_new [\<lparr>vi_validator_id = 0, vi_public_key = [7], vi_voting_power = 1\<rparr>]"

definition demo_topology :: topology where
  "demo_topology = static_topology_dyn (env_blake3 demo_env) (static_new 0 1 demo_validators)"

definition demo_state :: bft_state where
  "demo_state = bft_new demo_env 0 [] demo_topology bft_config_default recovered_default"

definition demo_header :: "u64 \<Rightarrow> u64 \<Rightarrow> quorum_certificate \<Rightarrow> block_header" where
  "demo_header height round qc = \<lparr>hd_height = height, hd_parent_hash = qc_block_hash qc, hd_parent_qc = qc,
     hd_proposer = 0, hd_timestamp = 0, hd_round = round, hd_is_fallback = False, hd_state_root = 0,
     hd_state_version = 0, hd_transaction_root = Hash_ZERO\<rparr>"

definition demo_block :: "block_header \<Rightarrow> block" where
  "demo_block header = \<lparr>bl_header = header, bl_retry_transactions = [], bl_priority_transactions = [],
     bl_transactions = [], bl_certificates = [], bl_deferred = [], bl_aborted = [],
     bl_commitment_proofs = hm_empty\<rparr>"

definition demo_qc :: quorum_certificate where
  "demo_qc = qc_genesis\<lparr>qc_block_hash := 2, qc_height := 1, qc_voting_power := 1\<rparr>"

definition demo_certified :: bft_state where
  "demo_certified = demo_state\<lparr>certified_blocks := hm_insert 2 (demo_block (demo_header 1 0 qc_genesis), demo_qc) hm_empty\<rparr>"

text \<open>Two blocks of height 1, both waiting for their verification.\<close>

definition demo_pending_of :: "block \<Rightarrow> pending_block" where
  "demo_pending_of b = (pb_new (bl_header b) [] [] [] [])\<lparr>constructed_block := Some b\<rparr>"

definition demo_pending :: "u64 \<Rightarrow> pending_block" where
  "demo_pending round = demo_pending_of (demo_block (demo_header 1 round qc_genesis))"

definition demo_two_blocks :: bft_state where
  "demo_two_blocks = demo_state\<lparr>pending_blocks := hm_insert 3 (demo_pending 1) (hm_insert 2 (demo_pending 0) hm_empty)\<rparr>"

text \<open>A block with a certificate on top of a parent whose state the node has not reached.\<close>

definition demo_cert :: transaction_certificate where
  "demo_cert = \<lparr>tc_transaction_hash = 6, tc_decision = Accept, tc_shard_proofs = hm_empty\<rparr>"

definition demo_queued_block :: block where
  "demo_queued_block = (demo_block (demo_header 2 0 demo_qc))\<lparr>bl_certificates := [demo_cert]\<rparr>"

definition demo_queued_parent :: block where
  "demo_queued_parent = demo_block ((demo_header 1 0 qc_genesis)\<lparr>hd_state_root := 9\<rparr>)"

definition demo_queued :: bft_state where
  "demo_queued = demo_state\<lparr>pending_blocks := hm_insert 3 (demo_pending_of demo_queued_block) hm_empty,
     certified_blocks := hm_insert 2 (demo_queued_parent, demo_qc) hm_empty\<rparr>"

text \<open>A certified block of height 1 with one certificate, on top of which height 2 is proposed.\<close>

definition demo_chain :: bft_state where
  "demo_chain = demo_state\<lparr>latest_qc := Some demo_qc, certified_blocks := hm_insert 2
     ((demo_block (demo_header 1 0 qc_genesis))\<lparr>bl_certificates := [demo_cert\<lparr>tc_transaction_hash := 7\<rparr>]\<rparr>, demo_qc) hm_empty\<rparr>"

lemma demo_hash_never_zero: "hash_never_zero demo_env"
  by (simp add: hash_never_zero_def demo_env_def header_hash_def Hash_ZERO_def)

lemma demo_state_simps:
  "committed_height demo_state = 0" "pending_blocks demo_state = hm_empty" "pending_commits demo_state = hm_empty"
  "buffered_synced_blocks demo_state = hm_empty" "pending_synced_block_verifications demo_state = hm_empty"
  by (simp_all add: demo_state_def bft_new_def recovered_default_def)

lemma demo_commit:
  "bft_handle demo_env (Block_ready_to_commit 2 demo_qc) demo_certified =
     Some (commit_one 2 (demo_block (demo_header 1 0 qc_genesis)) demo_certified)"
proof -
  let ?b = "demo_block (demo_header 1 0 qc_genesis)"
  have h: "bl_height ?b = 1" by (simp add: demo_block_def demo_header_def)
  have l: "commit_lookup demo_certified 2 = Some ?b"
    by (simp add: commit_lookup_def demo_certified_def demo_state_simps hm_get_insert)
  have c: "committed_height demo_certified = 0" "pending_commits demo_certified = hm_empty"
    by (simp_all add: demo_certified_def demo_state_simps)
  have loop: "commit_loop 2 demo_certified = commit_one 2 ?b demo_certified"
    by (subst commit_loop.simps) (simp add: l h c pending_commits_commit_one)
  let ?t = "fst (commit_one 2 ?b demo_certified)"
  have "buffered_synced_blocks ?t = hm_retain (\<lambda>h _. h > 1) hm_empty"
    by (simp add: commit_one_def cleanup_old_state_def record_leader_activity_def Let_def h demo_certified_def demo_state_simps)
  then have "try_drain_buffered_synced_blocks demo_env ?t = (?t, [])"
    by (intro try_drain_idle) simp
  then show ?thesis
    by (simp add: bft_handle_def on_block_ready_to_commit_def on_block_ready_to_commit_with_def l h c loop
        commit_block_and_buffered_with_def then_do_def split_beta Let_def)
qed

lemma demo_certified_wf: "commit_wf demo_env demo_certified"
  by (simp add: commit_wf_def demo_certified_def demo_state_simps)

lemma demo_pending_of_simps [simp]:
  "constructed_block (demo_pending_of b) = Some b" "pb_header (demo_pending_of b) = bl_header b"
  by (simp_all add: demo_pending_of_def pb_new_def pb_full_def with_proofs_def)

lemma demo_fresh:
  "hm_get (voted_heights demo_state) k = None" "verified_state_roots demo_state = hm_empty"
  "state_root_verifications_in_flight demo_state = hm_empty" "last_committed_jmt_state demo_state = (0, 0)"
  "certified_blocks demo_state = hm_empty"
  by (simp_all add: demo_state_def bft_new_def recovered_default_def Hash_ZERO_def)

lemma demo_no_genesis: "genesis_block demo_state = None"
  by (simp add: demo_state_def bft_new_def)

lemma demo_chain_facts:
  "next_proposal_height demo_chain = 2" "view demo_chain = 0" "should_propose (topology demo_chain) 2 0"
  "hm_get (voted_heights demo_chain) k = None" "\<not> hm_contains (voted_heights demo_chain) k"
  "syncing demo_chain = False" "fst (proposal_parent demo_chain) = 2"
  "cfg_max_certificates_per_block (config demo_chain) = 4096"
proof -
  have top: "topology demo_chain = demo_topology" by (simp add: demo_chain_def demo_state_def bft_new_def)
  have "should_propose demo_topology 2 0" by code_simp
  then show "should_propose (topology demo_chain) 2 0" by (simp add: top)
qed (simp_all add: demo_chain_def demo_fresh next_proposal_height_def proposal_parent_def demo_qc_def hm_contains_def,
     simp_all add: demo_state_def bft_new_def bft_config_default_def)

lemma demo_chain_walk: "\<exists>seen. walk_qc_chain demo_env demo_chain 2 hm_empty = Some seen \<and> \<not> hm_contains seen 6"
proof -
  let ?b = "(demo_block (demo_header 1 0 qc_genesis))\<lparr>bl_certificates := [demo_cert\<lparr>tc_transaction_hash := 7\<rparr>]\<rparr>"
  have blocks: "get_block_by_hash demo_env demo_chain 2 = Some ?b"
      "get_block_by_hash demo_env demo_chain 0 = None"
    by (simp_all add: get_block_by_hash_def demo_chain_def demo_state_simps hm_get_insert)
      (simp_all add: demo_state_def bft_new_def)
  have "committed_height demo_chain = 0" by (simp add: demo_chain_def demo_state_simps)
  moreover have "bl_height ?b = 1" "hd_parent_hash (bl_header ?b) = 0"
    by (simp_all add: demo_block_def demo_header_def qc_genesis_def Hash_ZERO_def)
  ultimately have "walk_qc_chain demo_env demo_chain 2 hm_empty = Some (hs_insert 7 hm_empty)"
    by (simp add: walk_qc_chain.simps [of _ _ 2] walk_qc_chain.simps [of _ _ 0] blocks)
  then show ?thesis by (simp add: hm_contains_def hm_get_insert)
qed

text \<open>A block with an abort among two of one height, a node far ahead of genesis, and a chain of two blocks.\<close>

definition demo_aborting :: bft_state where
  "demo_aborting = demo_two_blocks\<lparr>pending_blocks := hm_insert 2 (demo_pending_of ((demo_block (demo_header 1 0 qc_genesis))
      \<lparr>bl_aborted := [\<lparr>ta_tx_hash = 8, ta_reason = TooManyRetries 3, ta_block_height = 1\<rparr>]\<rparr>))
      (pending_blocks demo_two_blocks)\<rparr>"

definition demo_far :: bft_state where
  "demo_far = demo_state\<lparr>committed_height := 5, committed_hash := 4\<rparr>"

definition demo_two_high :: bft_state where
  "demo_two_high = demo_chain\<lparr>latest_qc := Some (demo_qc\<lparr>qc_block_hash := 3, qc_height := 2\<rparr>),
     certified_blocks := hm_insert 3 (demo_block (demo_header 2 0 demo_qc), demo_qc\<lparr>qc_block_hash := 3, qc_height := 2\<rparr>)
       (certified_blocks demo_chain)\<rparr>"

lemma demo_two_high_blocks:
  assumes "get_block_by_hash demo_env demo_two_high h = Some b"
  shows "h = 3 \<and> bl_header b = demo_header 2 0 demo_qc \<or> h = 2 \<and> bl_header b = demo_header 1 0 qc_genesis"
  using assms
  by (auto simp: get_block_by_hash_def demo_two_high_def demo_chain_def demo_state_simps demo_no_genesis hm_get_insert
      demo_block_def split: if_splits)

end
