(* ===== verification/Status_Text.thy ===== *)
theory Status_Text
  imports Transactions
begin

text \<open>
  The textual form of a transaction status (\<open>Display\<close> and \<open>FromStr\<close> of \<open>TransactionStatus\<close>
  and \<open>AbortReason\<close> in \<open>crates/types/src/transaction.rs\<close>, \<open>Hash::from_hex\<close> and \<open>to_hex\<close> in
  \<open>crates/types/src/hash.rs\<close>).

  A \<open>str\<close> is the list of its UTF-8 bytes; the code only cuts it at parentheses, which are
  single bytes.  The hex codec is a crate outside the repository: its two functions are the
  record \<open>hex_codec\<close>, and \<open>hex_ok\<close> says what the crate documents of them.
\<close>

section \<open>Decimal numbers\<close>

text \<open>\<open>Display\<close> of an unsigned integer.\<close>

fun decimal :: "nat \<Rightarrow> string" where
  "decimal n = (if n < 10 then [char_of (48 + n)] else decimal (n div 10) @ [char_of (48 + n mod 10)])"

declare decimal.simps [simp del]

text \<open>\<open>str::parse::<u64>\<close> and \<open>parse::<u32>\<close>: an optional plus sign, at least one digit, no overflow.\<close>

definition digit_value :: "char \<Rightarrow> nat option" where
  "digit_value c = (let k = of_char c :: nat in if 48 \<le> k \<and> k \<le> 57 then Some (k - 48) else None)"

fun parse_digits :: "nat \<Rightarrow> nat \<Rightarrow> string \<Rightarrow> nat option" where
  "parse_digits bound acc [] = Some acc"
| "parse_digits bound acc (c # cs) =
     (case digit_value c of None \<Rightarrow> None
      | Some d \<Rightarrow> if bound < acc * 10 + d then None else parse_digits bound (acc * 10 + d) cs)"

definition parse_uint :: "nat \<Rightarrow> string \<Rightarrow> nat option" where
  "parse_uint bound s =
     (let digits = (case s of [] \<Rightarrow> [] | c # cs \<Rightarrow> if c = CHR ''+'' then cs else s)
      in if digits = [] then None else parse_digits bound 0 digits)"

definition parse_u64 :: "string \<Rightarrow> u64 option" where
  "parse_u64 s = map_option word_of_nat (parse_uint 18446744073709551615 s)"

definition parse_u32 :: "string \<Rightarrow> u32 option" where
  "parse_u32 s = map_option word_of_nat (parse_uint 4294967295 s)"

section \<open>Hashes in hexadecimal\<close>

record hex_codec =
  hex_encode :: "bytes \<Rightarrow> string"
  hex_decode :: "string \<Rightarrow> bytes option"

definition hash_from_bytes :: "bytes \<Rightarrow> hash" where
  "hash_from_bytes bs = foldl (\<lambda>acc b. push_bit 8 acc OR ucast b) 0 bs"

datatype hex_error = InvalidLength nat nat | InvalidHex

definition to_hex :: "hex_codec \<Rightarrow> hash \<Rightarrow> string" where
  "to_hex X h = hex_encode X (as_bytes h)"

definition from_hex :: "hex_codec \<Rightarrow> string \<Rightarrow> hex_error + hash" where
  "from_hex X hex =
     (if length hex \<noteq> 64 then Inl (InvalidLength 64 (length hex))
      else case hex_decode X hex of None \<Rightarrow> Inl InvalidHex | Some bytes \<Rightarrow> Inr (hash_from_bytes bytes))"

section \<open>Abort reasons\<close>

fun abort_reason_display :: "abort_reason \<Rightarrow> string" where
  "abort_reason_display (ExecutionTimeout committed_at) = ''timeout('' @ decimal (unat committed_at) @ '')''"
| "abort_reason_display (TooManyRetries n) = ''retries('' @ decimal (unat n) @ '')''"
| "abort_reason_display (ExecutionRejected reason) = ''rejected('' @ reason @ '')''"

text \<open>The text before the first parenthesis and the text after it.\<close>

fun find_paren :: "string \<Rightarrow> (string \<times> string) option" where
  "find_paren [] = None"
| "find_paren (c # cs) =
     (if c = CHR ''('' then Some ([], cs) else map_option (\<lambda>(a, b). (c # a, b)) (find_paren cs))"

definition ends_with_paren :: "string \<Rightarrow> bool" where
  "ends_with_paren s \<longleftrightarrow> s \<noteq> [] \<and> last s = CHR '')''"

datatype abort_parse_error = Invalid_abort_format string | Invalid_height string
  | Invalid_retry_count string | Unknown_abort_reason string

definition abort_reason_from_str :: "string \<Rightarrow> abort_parse_error + abort_reason" where
  "abort_reason_from_str s =
     (case find_paren s of
        None \<Rightarrow> Inl (Invalid_abort_format s)
      | Some (name, rest) \<Rightarrow>
          if \<not> ends_with_paren s then Inl (Invalid_abort_format s)
          else
            let inner = butlast rest in
            if name = ''timeout'' then
              (case parse_u64 inner of None \<Rightarrow> Inl (Invalid_height inner) | Some h \<Rightarrow> Inr (ExecutionTimeout h))
            else if name = ''retries'' then
              (case parse_u32 inner of None \<Rightarrow> Inl (Invalid_retry_count inner) | Some n \<Rightarrow> Inr (TooManyRetries n))
            else if name = ''rejected'' then Inr (ExecutionRejected inner)
            else Inl (Unknown_abort_reason name))"

section \<open>Statuses\<close>

fun decision_text :: "transaction_decision \<Rightarrow> string" where
  "decision_text Accept = ''accept''"
| "decision_text Reject = ''reject''"

fun status_display :: "hex_codec \<Rightarrow> transaction_status \<Rightarrow> string" where
  "status_display X Pending = ''pending''"
| "status_display X (Committed height) = ''committed('' @ decimal (unat height) @ '')''"
| "status_display X (Executed d _) = ''executed('' @ decision_text d @ '')''"
| "status_display X (Completed d) = ''completed('' @ decision_text d @ '')''"
| "status_display X (Deferred w) = ''deferred('' @ to_hex X w @ '')''"
| "status_display X (Retried t) = ''retried('' @ to_hex X t @ '')''"
| "status_display X (Aborted r) = ''aborted('' @ abort_reason_display r @ '')''"

datatype status_parse_error = UnknownStatus string | InvalidFormat string | MissingValue string
  | InvalidValue string

definition parse_decision :: "string \<Rightarrow> status_parse_error + transaction_decision" where
  "parse_decision s = (if s = ''accept'' then Inr Accept else if s = ''reject'' then Inr Reject
     else Inl (InvalidValue ''decision''))"

text \<open>\<open>match name\<close> of the parser, with the text in the parentheses if there were any.\<close>

definition status_of_parts :: "hex_codec \<Rightarrow> string \<Rightarrow> string option \<Rightarrow> status_parse_error + transaction_status" where
  "status_of_parts X name inner =
     (if name = ''pending'' then Inr Pending
      else if name = ''committed'' then
        (case inner of None \<Rightarrow> Inl (MissingValue ''committed'') | Some v \<Rightarrow>
          case parse_u64 v of None \<Rightarrow> Inl (InvalidValue ''height'') | Some h \<Rightarrow> Inr (Committed h))
      else if name = ''executed'' then
        (case inner of None \<Rightarrow> Inl (MissingValue ''executed'') | Some v \<Rightarrow>
          case parse_decision v of Inl e \<Rightarrow> Inl e | Inr d \<Rightarrow> Inr (Executed d 0))
      else if name = ''completed'' then
        (case inner of None \<Rightarrow> Inl (MissingValue ''completed'') | Some v \<Rightarrow>
          case parse_decision v of Inl e \<Rightarrow> Inl e | Inr d \<Rightarrow> Inr (Completed d))
      else if name = ''deferred'' then
        (case inner of None \<Rightarrow> Inl (MissingValue ''deferred'') | Some v \<Rightarrow>
          case from_hex X v of Inl _ \<Rightarrow> Inl (InvalidValue ''hash'') | Inr h \<Rightarrow> Inr (Deferred h))
      else if name = ''retried'' then
        (case inner of None \<Rightarrow> Inl (MissingValue ''retried'') | Some v \<Rightarrow>
          case from_hex X v of Inl _ \<Rightarrow> Inl (InvalidValue ''hash'') | Inr h \<Rightarrow> Inr (Retried h))
      else if name = ''aborted'' then
        (case inner of None \<Rightarrow> Inl (MissingValue ''aborted'') | Some v \<Rightarrow>
          case abort_reason_from_str v of Inl _ \<Rightarrow> Inl (InvalidValue ''reason'') | Inr r \<Rightarrow> Inr (Aborted r))
      else Inl (UnknownStatus name))"

definition status_from_str :: "hex_codec \<Rightarrow> string \<Rightarrow> status_parse_error + transaction_status" where
  "status_from_str X s =
     (if s = ''pending'' then Inr Pending
      else case find_paren s of
        Some (name, rest) \<Rightarrow>
          if \<not> ends_with_paren s then Inl (InvalidFormat s)
          else status_of_parts X name (Some (butlast rest))
      | None \<Rightarrow> status_of_parts X s None)"

section \<open>Facts\<close>

lemma parse_digits_append:
  "parse_digits bound acc (xs @ ys) = Option.bind (parse_digits bound acc xs) (\<lambda>a. parse_digits bound a ys)"
  by (induction xs arbitrary: acc) (auto split: option.split)

lemma digit_value_digit: "d < 10 \<Longrightarrow> digit_value (char_of (48 + d)) = Some d"
  by (simp add: digit_value_def)

lemma parse_decimal: "n \<le> bound \<Longrightarrow> parse_digits bound 0 (decimal n) = Some n"
proof (induction n rule: less_induct)
  case (less n)
  show ?case
  proof (cases "n < 10")
    case True
    then show ?thesis using less.prems by (subst decimal.simps) (simp add: digit_value_digit)
  next
    case False
    then have "parse_digits bound 0 (decimal (n div 10)) = Some (n div 10)"
      using less.prems by (intro less.IH) auto
    then show ?thesis
      using False less.prems by (subst decimal.simps) (simp add: parse_digits_append digit_value_digit)
  qed
qed

lemma decimal_digits: "c \<in> set (decimal n) \<Longrightarrow> digit_value c \<noteq> None"
proof (induction n rule: less_induct)
  case (less n)
  show ?case
  proof (cases "n < 10")
    case True
    then show ?thesis using less.prems by (subst (asm) decimal.simps) (simp add: digit_value_digit)
  next
    case False
    then show ?thesis
      using less.prems less.IH [of "n div 10"]
      by (subst (asm) decimal.simps) (auto simp: digit_value_digit)
  qed
qed

lemma decimal_ne: "decimal n \<noteq> []"
  by (subst decimal.simps) simp

lemma parse_uint_decimal: "n \<le> bound \<Longrightarrow> parse_uint bound (decimal n) = Some n"
proof -
  assume n: "n \<le> bound"
  have "hd (decimal n) \<noteq> CHR ''+''"
    using decimal_digits [of "hd (decimal n)" n] decimal_ne [of n] by (auto simp: digit_value_def)
  then have "(case decimal n of [] \<Rightarrow> [] | c # cs \<Rightarrow> if c = CHR ''+'' then cs else decimal n) = decimal n"
    by (auto split: list.split)
  then show ?thesis using parse_decimal [OF n] decimal_ne [of n] by (simp add: parse_uint_def)
qed

lemma parse_u64_decimal [simp]: "parse_u64 (decimal (unat h)) = Some h"
  using unat_less_u64 [of h] by (simp add: parse_u64_def parse_uint_decimal)

lemma parse_u32_decimal [simp]: "parse_u32 (decimal (unat n)) = Some n"
  using unsigned_less [of n, where ?'a = nat] by (simp add: parse_u32_def parse_uint_decimal)

lemma ends_with_paren_snoc [simp]: "ends_with_paren (xs @ '')'')" "ends_with_paren (x # xs @ '')'')"
  by (simp_all add: ends_with_paren_def)

lemma abort_reason_roundtrip: "abort_reason_from_str (abort_reason_display r) = Inr r"
  by (cases r) (simp_all add: abort_reason_from_str_def Let_def ends_with_paren_def butlast_append)

text \<open>What the hex crate documents: two characters per byte, and decoding inverts encoding.\<close>

definition hex_ok :: "hex_codec \<Rightarrow> bool" where
  "hex_ok X \<longleftrightarrow> (\<forall>bs. length (hex_encode X bs) = 2 * length bs \<and> hex_decode X (hex_encode X bs) = Some bs)"

lemma hash_from_bytes_as_bytes [simp]: "hash_from_bytes (as_bytes h) = h"
proof (rule bit_word_eqI)
  fix k assume "k < LENGTH(256)"
  then show "bit (hash_from_bytes (as_bytes h)) k = bit h k"
    unfolding hash_from_bytes_def as_bytes_def le_bytes_def
    by (subst bit_from_bytes) (simp_all add: bit_ucast_iff bit_drop_bit_eq)
qed
lemma from_to_hex: "hex_ok X \<Longrightarrow> from_hex X (to_hex X h) = Inr h"
  by (simp add: from_hex_def to_hex_def hex_ok_def)

lemma parse_decision_text [simp]: "parse_decision (decision_text d) = Inr d"
  by (cases d) (simp_all add: parse_decision_def)

text \<open>The text of an \<open>Executed\<close> status leaves out its height, which the parser replaces by 0.\<close>

fun forget_height :: "transaction_status \<Rightarrow> transaction_status" where
  "forget_height (Executed d _) = Executed d 0"
| "forget_height s = s"

text \<open>The codec of the hex crate on lower-case digits, as an instance of what is assumed.\<close>

definition hex_digit :: "nat \<Rightarrow> char" where
  "hex_digit n = ''0123456789abcdef'' ! n"

definition nibble :: "char \<Rightarrow> nat option" where
  "nibble c = List.find (\<lambda>n. hex_digit n = c) [0..<16]"

fun hex_decode_pairs :: "string \<Rightarrow> bytes option" where
  "hex_decode_pairs [] = Some []"
| "hex_decode_pairs (a # b # cs) =
     (case (nibble a, nibble b, hex_decode_pairs cs) of
        (Some x, Some y, Some bs) \<Rightarrow> Some (word_of_nat (16 * x + y) # bs) | _ \<Rightarrow> None)"
| "hex_decode_pairs [_] = None"

definition lower_hex :: hex_codec where
  "lower_hex = \<lparr>hex_encode = (\<lambda>bs. concat (map (\<lambda>b. [hex_digit (unat b div 16), hex_digit (unat b mod 16)]) bs)),
     hex_decode = hex_decode_pairs\<rparr>"

lemma nibble_hex_digit: "n < 16 \<Longrightarrow> nibble (hex_digit n) = Some n"
proof -
  have "\<forall>n \<in> {..<16}. nibble (hex_digit n) = Some n" by code_simp
  then show "n < 16 \<Longrightarrow> nibble (hex_digit n) = Some n" by simp
qed

lemma lower_hex_ok: "hex_ok lower_hex"
proof -
  have "length (hex_encode lower_hex bs) = 2 * length bs
      \<and> hex_decode lower_hex (hex_encode lower_hex bs) = Some bs" for bs
  proof (induction bs)
    case (Cons b bs)
    have "unat b < 256" using unsigned_less [of b, where ?'a = nat] by simp
    then have "unat b div 16 < 16" by simp
    then show ?case using Cons by (simp add: lower_hex_def nibble_hex_digit)
  qed (simp add: lower_hex_def)
  then show ?thesis by (simp add: hex_ok_def)
qed

section \<open>Round trip\<close>

text \<open>
  C19: the text of a status parses back to that status, for every status; only the height inside
  an \<open>Executed\<close> status, which the text leaves out, comes back as 0.
\<close>

theorem status_text_roundtrip:
  assumes "hex_ok X"
  shows "status_from_str X (status_display X s) = Inr (forget_height s)"
  using from_to_hex [OF assms] abort_reason_roundtrip
  by (cases s) (simp_all add: status_from_str_def status_of_parts_def ends_with_paren_def butlast_append)

theorem status_text_roundtrip_witness:
  "status_from_str lower_hex (status_display lower_hex (Aborted (ExecutionRejected ''no (funds)'')))
     = Inr (Aborted (ExecutionRejected ''no (funds)''))
   \<and> status_from_str lower_hex (status_display lower_hex (Executed Accept 7)) = Inr (Executed Accept 0)"
  using status_text_roundtrip [OF lower_hex_ok, of "Aborted (ExecutionRejected ''no (funds)'')"]
    status_text_roundtrip [OF lower_hex_ok, of "Executed Accept 7"] by simp

end
