(* ===== verification/Multi_Index.thy ===== *)
theory Multi_Index
  imports Rust_Prelude
begin

text \<open>
  A \<open>HashMap<K, HashSet<X>>\<close> kept as an index, the way the sub-state machines keep reverse
  lookups: \<open>entry(k).or_default().insert(x)\<close> to add a pair, and \<open>get_mut(k)\<close>, \<open>remove(x)\<close> and
  removal of a set that became empty to delete one.  The contract an index fulfils is a locale;
  the lemmas about adding or deleting a pair for every key of a list are proved in it once.
\<close>

type_synonym ('k, 'x) hindex = "('k, 'x hset) hmap"

definition index_add :: "'k \<Rightarrow> 'x \<Rightarrow> ('k, 'x) hindex \<Rightarrow> ('k, 'x) hindex" where
  "index_add k x m = hm_insert k (hs_insert x (case hm_get m k of Some s \<Rightarrow> s | None \<Rightarrow> hm_empty)) m"

definition index_del :: "'k \<Rightarrow> 'x \<Rightarrow> ('k, 'x) hindex \<Rightarrow> ('k, 'x) hindex" where
  "index_del k x m =
     (case hm_get m k of
        None \<Rightarrow> m
      | Some s \<Rightarrow> let t = hm_remove x s in if hm_len t = 0 then hm_remove k m else hm_insert k t m)"

definition index_has :: "('k, 'x) hindex \<Rightarrow> 'k \<Rightarrow> 'x \<Rightarrow> bool" where
  "index_has m k x \<longleftrightarrow> (case hm_get m k of None \<Rightarrow> False | Some s \<Rightarrow> hm_contains s x)"

definition index_get :: "('k, 'x) hindex \<Rightarrow> 'k \<Rightarrow> 'x list" where
  "index_get m k = (case hm_get m k of None \<Rightarrow> [] | Some s \<Rightarrow> hm_keys s)"

section \<open>The contract of an index\<close>

locale pair_index =
  fixes has :: "'m \<Rightarrow> 'k \<Rightarrow> 'x \<Rightarrow> bool"
    and add :: "'k \<Rightarrow> 'x \<Rightarrow> 'm \<Rightarrow> 'm"
    and del :: "'k \<Rightarrow> 'x \<Rightarrow> 'm \<Rightarrow> 'm"
  assumes has_add: "has (add k x m) k' x' \<longleftrightarrow> k' = k \<and> x' = x \<or> has m k' x'"
    and has_del: "has (del k x m) k' x' \<longleftrightarrow> \<not> (k' = k \<and> x' = x) \<and> has m k' x'"
begin

lemma has_add_all:
  "has (fold (\<lambda>k. add k x) ks m) k' x' \<longleftrightarrow> (k' \<in> set ks \<and> x' = x) \<or> has m k' x'"
proof (induction ks arbitrary: m)
  case (Cons k ks)
  show ?case by (simp add: Cons has_add) blast
qed simp

lemma has_del_all:
  "has (fold (\<lambda>k. del k x) ks m) k' x' \<longleftrightarrow> \<not> (k' \<in> set ks \<and> x' = x) \<and> has m k' x'"
proof (induction ks arbitrary: m)
  case (Cons k ks)
  show ?case by (simp add: Cons has_del) blast
qed simp

end

lemma index_has_add: "index_has (index_add k x m) k' x' \<longleftrightarrow> k' = k \<and> x' = x \<or> index_has m k' x'"
  by (auto simp: index_has_def index_add_def hm_get_insert split: option.split)

lemma index_has_del: "index_has (index_del k x m) k' x' \<longleftrightarrow> \<not> (k' = k \<and> x' = x) \<and> index_has m k' x'"
proof (cases "hm_get m k")
  case None
  then show ?thesis by (auto simp: index_has_def index_del_def split: option.split)
next
  case (Some s)
  have empty: "\<not> hm_contains s y" if "hm_len (hm_remove x s) = 0" "y \<noteq> x" for y
    using that hm_contains_remove [of x s y] unfolding hm_no_entries hm_contains_def by metis
  show ?thesis
  proof (cases "k' = k")
    case True
    then show ?thesis
      using Some empty by (cases "hm_len (hm_remove x s) = 0") (auto simp: index_has_def index_del_def Let_def hm_get_insert)
  next
    case False
    then show ?thesis using Some by (simp add: index_has_def index_del_def Let_def hm_get_insert)
  qed
qed

interpretation hindex: pair_index index_has index_add index_del
  by unfold_locales (simp_all add: index_has_add index_has_del)

lemma index_has_empty [simp]: "\<not> index_has hm_empty k x"
  by (simp add: index_has_def)

lemma set_index_get [simp]: "x \<in> set (index_get m k) \<longleftrightarrow> index_has m k x"
  by (auto simp: index_get_def index_has_def hm_keys_iff split: option.split)

lemma distinct_index_get [simp]: "distinct (index_get m k)"
  by (simp add: index_get_def split: option.split)

end
