(* ===== verification/Livelock.thy ===== *)
theory Livelock
  imports Multi_Index Topology
begin

text \<open>
  Detection of cross-shard cycles and the queue of deferrals (\<open>crates/livelock/src/tracker.rs\<close>
  and \<open>crates/livelock/src/state.rs\<close>).  When a quorum of provisions shows that a transaction of
  another shard holds nodes that a committed local transaction waits for, the transaction with
  the larger hash is deferred.
\<close>

section \<open>Trackers\<close>

record remote_state_needs =
  rn_shards :: "shard_group_id hset"
  rn_nodes_by_shard :: "(shard_group_id, node_id) hindex"

record cross_shard_tracker =
  tx_needs :: "(hash, remote_state_needs) hmap"
  shards_needed_by :: "(shard_group_id, hash) hindex"

definition tracker_new :: cross_shard_tracker where
  "tracker_new = \<lparr>tx_needs = hm_empty, shards_needed_by = hm_empty\<rparr>"

definition tracker_add :: "hash \<Rightarrow> remote_state_needs \<Rightarrow> cross_shard_tracker \<Rightarrow> cross_shard_tracker" where
  "tracker_add h needs t =
     t\<lparr>shards_needed_by := fold (\<lambda>s. index_add s h) (bm_keys (rn_shards needs)) (shards_needed_by t),
       tx_needs := hm_insert h needs (tx_needs t)\<rparr>"

definition tracker_remove :: "hash \<Rightarrow> cross_shard_tracker \<Rightarrow> cross_shard_tracker" where
  "tracker_remove h t =
     (case hm_get (tx_needs t) h of
        None \<Rightarrow> t
      | Some needs \<Rightarrow>
          t\<lparr>tx_needs := hm_remove h (tx_needs t),
            shards_needed_by := fold (\<lambda>s. index_del s h) (bm_keys (rn_shards needs)) (shards_needed_by t)\<rparr>)"

definition txs_needing_shard :: "cross_shard_tracker \<Rightarrow> shard_group_id \<Rightarrow> hash list option" where
  "txs_needing_shard t s = map_option hm_keys (hm_get (shards_needed_by t) s)"

definition nodes_needed_from_shard :: "cross_shard_tracker \<Rightarrow> hash \<Rightarrow> shard_group_id \<Rightarrow> node_id hset option" where
  "nodes_needed_from_shard t h s =
     Option.bind (hm_get (tx_needs t) h) (\<lambda>needs. hm_get (rn_nodes_by_shard needs) s)"

text \<open>\<open>ProvisionTracker\<close>: \<open>add\<close> says whether the pair is new.\<close>

type_synonym provision_seen = "(hash \<times> shard_group_id) hset"

definition provision_add :: "hash \<Rightarrow> shard_group_id \<Rightarrow> provision_seen \<Rightarrow> provision_seen \<times> bool" where
  "provision_add h s seen = (hs_insert (h, s) seen, \<not> hm_contains seen (h, s))"

definition provision_remove_tx :: "hash \<Rightarrow> provision_seen \<Rightarrow> provision_seen" where
  "provision_remove_tx h seen = hm_retain (\<lambda>(h', _) _. h' \<noteq> h) seen"

section \<open>The state machine\<close>

record livelock_config =
  lc_tombstone_ttl :: duration
  lc_execution_timeout_blocks :: u64
  lc_max_retries :: u32

definition livelock_config_default :: livelock_config where
  "livelock_config_default = \<lparr>lc_tombstone_ttl = from_millis 30000, lc_execution_timeout_blocks = 30, lc_max_retries = 3\<rparr>"

record livelock_state =
  ll_local_shard :: shard_group_id
  ll_topology :: topology
  committed_tracker :: cross_shard_tracker
  provision_tracker :: provision_seen
  deferred_tombstones :: "(hash, duration) hmap"
  ll_commitment_proofs :: "(hash, commitment_proof) hmap"
  pending_deferrals :: "transaction_defer list"
  pending_deferral_hashes :: "hash hset"
  ll_now :: duration
  ll_config :: livelock_config

definition livelock_with_config :: "shard_group_id \<Rightarrow> topology \<Rightarrow> livelock_config \<Rightarrow> livelock_state" where
  "livelock_with_config shard T cfg =
     \<lparr>ll_local_shard = shard, ll_topology = T, committed_tracker = tracker_new, provision_tracker = hm_empty,
      deferred_tombstones = hm_empty, ll_commitment_proofs = hm_empty, pending_deferrals = [],
      pending_deferral_hashes = hm_empty, ll_now = 0, ll_config = cfg\<rparr>"

definition livelock_set_time :: "duration \<Rightarrow> livelock_state \<Rightarrow> livelock_state" where
  "livelock_set_time t s = s\<lparr>ll_now := t\<rparr>"

definition compute_remote_state_needs :: "livelock_state \<Rightarrow> routable_transaction \<Rightarrow> remote_state_needs" where
  "compute_remote_state_needs s tx =
     (let add = (\<lambda>n m. let shard = shard_for_node_id (ll_topology s) n in
            if shard \<noteq> ll_local_shard s then index_add shard n m else m);
          nodes_by_shard = fold add (declared_writes tx) (fold add (declared_reads tx) hm_empty)
      in \<lparr>rn_shards = hs_collect (hm_keys nodes_by_shard), rn_nodes_by_shard = nodes_by_shard\<rparr>)"

definition livelock_is_cross_shard :: "livelock_state \<Rightarrow> routable_transaction \<Rightarrow> bool" where
  "livelock_is_cross_shard s tx \<longleftrightarrow> hm_len (rn_shards (compute_remote_state_needs s tx)) \<noteq> 0"

definition on_cross_shard_committed :: "routable_transaction \<Rightarrow> livelock_state \<Rightarrow> livelock_state" where
  "on_cross_shard_committed tx s =
     (let needs = compute_remote_state_needs s tx in
      if hm_len (rn_shards needs) = 0 then s
      else s\<lparr>committed_tracker := tracker_add (tx_hash tx) needs (committed_tracker s)\<rparr>)"

definition queue_deferral :: "hash \<Rightarrow> hash \<Rightarrow> livelock_state \<Rightarrow> livelock_state" where
  "queue_deferral loser winner s =
     (if hm_contains (pending_deferral_hashes s) loser then s
      else case hm_get (ll_commitment_proofs s) winner of
        None \<Rightarrow> s
      | Some commitment \<Rightarrow>
          s\<lparr>pending_deferral_hashes := hs_insert loser (pending_deferral_hashes s),
            pending_deferrals := pending_deferrals s @
              [defer_new loser winner 0 \<lparr>cy_winner_tx_hash = winner, cy_winner_commitment = commitment\<rparr>]\<rparr>)"

text \<open>The loop of \<open>check_for_cycle\<close>: the local transactions that lose against the remote one.\<close>

definition cycle_losers :: "livelock_state \<Rightarrow> hash \<Rightarrow> shard_group_id \<Rightarrow> node_id hset \<Rightarrow> hash list \<Rightarrow> (hash \<times> hash) list" where
  "cycle_losers s remote source remote_nodes locals =
     List.map_filter (\<lambda>local.
       case nodes_needed_from_shard (committed_tracker s) local source of
         None \<Rightarrow> None
       | Some needed \<Rightarrow>
           if \<not> list_ex (\<lambda>n. hm_contains remote_nodes n) (hm_keys needed) then None
           else if local < remote then None
           else if remote < local then Some (local, remote)
           else None) locals"

definition check_for_cycle :: "hash \<Rightarrow> shard_group_id \<Rightarrow> node_id hset \<Rightarrow> livelock_state \<Rightarrow> livelock_state" where
  "check_for_cycle remote source remote_nodes s =
     (case txs_needing_shard (committed_tracker s) source of
        None \<Rightarrow> s
      | Some locals \<Rightarrow> fold (\<lambda>(loser, winner). queue_deferral loser winner) (cycle_losers s remote source remote_nodes locals) s)"

definition on_provision_quorum_reached :: "hash \<Rightarrow> shard_group_id \<Rightarrow> commitment_proof \<Rightarrow> livelock_state \<Rightarrow> livelock_state" where
  "on_provision_quorum_reached remote source proof s =
     (if hm_contains (deferred_tombstones s) remote then s
      else
        let (seen, is_new) = provision_add remote source (provision_tracker s);
            s1 = s\<lparr>provision_tracker := seen\<rparr>
        in if \<not> is_new then s1
           else check_for_cycle remote source (cp_nodes proof)
                  (s1\<lparr>ll_commitment_proofs := hm_insert remote proof (ll_commitment_proofs s1)\<rparr>))"

text \<open>What the three clean-up callbacks share.\<close>

definition forget_tx :: "hash \<Rightarrow> livelock_state \<Rightarrow> livelock_state" where
  "forget_tx h s =
     s\<lparr>committed_tracker := tracker_remove h (committed_tracker s),
       provision_tracker := provision_remove_tx h (provision_tracker s),
       ll_commitment_proofs := hm_remove h (ll_commitment_proofs s)\<rparr>"

definition on_deferral_committed :: "hash \<Rightarrow> livelock_state \<Rightarrow> livelock_state" where
  "on_deferral_committed h s =
     forget_tx h (s\<lparr>deferred_tombstones :=
       hm_insert h (ll_now s + lc_tombstone_ttl (ll_config s)) (deferred_tombstones s)\<rparr>)"

definition on_abort_committed :: "hash \<Rightarrow> livelock_state \<Rightarrow> livelock_state" where
  "on_abort_committed h s = forget_tx h s"

definition on_certificate_committed :: "hash \<Rightarrow> livelock_state \<Rightarrow> livelock_state" where
  "on_certificate_committed h s = forget_tx h s"

definition livelock_on_block_committed :: "block \<Rightarrow> livelock_state \<Rightarrow> livelock_state" where
  "livelock_on_block_committed b s =
     (let s1 = fold (\<lambda>d. on_deferral_committed (td_tx_hash d)) (bl_deferred b) s;
          s2 = fold (\<lambda>a. on_abort_committed (ta_tx_hash a)) (bl_aborted b) s1;
          s3 = fold (\<lambda>c. on_certificate_committed (tc_transaction_hash c)) (bl_certificates b) s2;
          hashes = fold (\<lambda>d. hm_remove (td_tx_hash d)) (bl_deferred b) (pending_deferral_hashes s3)
      in s3\<lparr>pending_deferral_hashes := hashes,
            pending_deferrals := filter (\<lambda>d. hm_contains hashes (td_tx_hash d)) (pending_deferrals s3)\<rparr>)"

definition livelock_cleanup :: "livelock_state \<Rightarrow> livelock_state" where
  "livelock_cleanup s = s\<lparr>deferred_tombstones := hm_retain (\<lambda>_ expiry. expiry > ll_now s) (deferred_tombstones s)\<rparr>"

section \<open>Facts about the trackers\<close>

lemma set_bm_keys [simp]: "x \<in> set (bm_keys m) \<longleftrightarrow> hm_contains m x"
  by (simp add: bm_keys_def hm_keys_iff)

text \<open>The reverse index lists a transaction under exactly the shards it needs.\<close>

definition needs_shard :: "cross_shard_tracker \<Rightarrow> hash \<Rightarrow> shard_group_id \<Rightarrow> bool" where
  "needs_shard t h s = (case hm_get (tx_needs t) h of None \<Rightarrow> False | Some needs \<Rightarrow> hm_contains (rn_shards needs) s)"

definition tracker_wf :: "cross_shard_tracker \<Rightarrow> bool" where
  "tracker_wf t \<longleftrightarrow> (\<forall>s h. index_has (shards_needed_by t) s h = needs_shard t h s)"

lemma tracker_wf_new: "tracker_wf tracker_new"
  by (simp add: tracker_wf_def tracker_new_def needs_shard_def)

lemma needs_shard_add:
  "needs_shard (tracker_add h needs t) h' s = (if h' = h then hm_contains (rn_shards needs) s else needs_shard t h' s)"
  by (simp add: needs_shard_def tracker_add_def hm_get_insert)

lemma needs_shard_remove: "needs_shard (tracker_remove h t) h' s \<longleftrightarrow> h' \<noteq> h \<and> needs_shard t h' s"
  by (simp add: needs_shard_def tracker_remove_def split: option.split)

lemma tracker_wf_add:
  assumes wf: "tracker_wf t" and same: "\<And>s. needs_shard t h s \<Longrightarrow> hm_contains (rn_shards needs) s"
  shows "tracker_wf (tracker_add h needs t)"
proof -
  have "index_has (shards_needed_by (tracker_add h needs t)) s h' \<longleftrightarrow>
      (hm_contains (rn_shards needs) s \<and> h' = h) \<or> index_has (shards_needed_by t) s h'" for s h'
    by (simp add: tracker_add_def hindex.has_add_all)
  moreover have "index_has (shards_needed_by t) s h' = needs_shard t h' s" for s h'
    using wf by (simp add: tracker_wf_def)
  ultimately have "index_has (shards_needed_by (tracker_add h needs t)) s h' = needs_shard (tracker_add h needs t) h' s" for s h'
    using same by (cases "h' = h") (simp_all add: needs_shard_add, blast)
  then show ?thesis by (simp add: tracker_wf_def)
qed

lemma tracker_wf_remove:
  assumes wf: "tracker_wf t"
  shows "tracker_wf (tracker_remove h t)"
proof (cases "hm_get (tx_needs t) h")
  case None
  then show ?thesis using wf by (simp add: tracker_remove_def)
next
  case (Some needs)
  have "index_has (shards_needed_by (tracker_remove h t)) s h' \<longleftrightarrow>
      \<not> (hm_contains (rn_shards needs) s \<and> h' = h) \<and> index_has (shards_needed_by t) s h'" for s h'
    using Some by (simp add: tracker_remove_def hindex.has_del_all)
  moreover have "index_has (shards_needed_by t) s h' = needs_shard t h' s" for s h'
    using wf by (simp add: tracker_wf_def)
  moreover have "needs_shard t h s = hm_contains (rn_shards needs) s" for s
    using Some by (simp add: needs_shard_def)
  ultimately have "index_has (shards_needed_by (tracker_remove h t)) s h' = needs_shard (tracker_remove h t) h' s" for s h'
    by (cases "h' = h") (simp_all add: needs_shard_remove)
  then show ?thesis by (simp add: tracker_wf_def)
qed

lemma txs_needing_shard_cases:
  assumes "tracker_wf t"
  obtains "txs_needing_shard t s = None" "\<And>h. \<not> needs_shard t h s"
  | hs where "txs_needing_shard t s = Some hs" "distinct hs" "\<And>h. h \<in> set hs \<longleftrightarrow> needs_shard t h s"
proof (cases "hm_get (shards_needed_by t) s")
  case None
  then have "\<not> index_has (shards_needed_by t) s h" for h by (simp add: index_has_def)
  then show ?thesis using that(1) None assms by (simp add: txs_needing_shard_def tracker_wf_def)
next
  case (Some m)
  then have "h \<in> set (hm_keys m) \<longleftrightarrow> index_has (shards_needed_by t) s h" for h by (simp add: index_has_def hm_keys_iff)
  then show ?thesis using that(2) [of "hm_keys m"] Some assms by (simp add: txs_needing_shard_def tracker_wf_def)
qed

section \<open>Cycle detection\<close>

definition overlaps :: "cross_shard_tracker \<Rightarrow> hash \<Rightarrow> shard_group_id \<Rightarrow> node_id hset \<Rightarrow> bool" where
  "overlaps t h s nodes \<longleftrightarrow> (\<exists>needed. nodes_needed_from_shard t h s = Some needed
     \<and> (\<exists>n. hm_contains needed n \<and> hm_contains nodes n))"

lemma set_map_filter: "y \<in> set (List.map_filter f xs) \<longleftrightarrow> (\<exists>x \<in> set xs. f x = Some y)"
  by (induction xs) (auto simp: List.map_filter_simps split: option.split)

lemma cycle_losers_iff:
  "(l, w) \<in> set (cycle_losers s remote source nodes locals) \<longleftrightarrow>
     l \<in> set locals \<and> w = remote \<and> remote < l \<and> overlaps (committed_tracker s) l source nodes"
proof -
  have ex: "list_ex (\<lambda>n. hm_contains nodes n) (hm_keys needed) \<longleftrightarrow> (\<exists>n. hm_contains needed n \<and> hm_contains nodes n)"
    for needed by (auto simp: list_ex_iff hm_keys_iff)
  show ?thesis
    unfolding cycle_losers_def set_map_filter overlaps_def ex
    by (auto split: option.splits if_splits)
qed

text \<open>Queueing the losers against one winner whose proof is stored.\<close>

lemma queue_losers:
  assumes "hm_get (ll_commitment_proofs s) w = Some proof" "\<forall>(l, v) \<in> set ps. v = w"
  shows "(\<forall>h. hm_contains (pending_deferral_hashes (fold (\<lambda>(l, v). queue_deferral l v) ps s)) h \<longleftrightarrow>
      hm_contains (pending_deferral_hashes s) h \<or> h \<in> fst ` set ps)
    \<and> committed_tracker (fold (\<lambda>(l, v). queue_deferral l v) ps s) = committed_tracker s"
  using assms
proof (induction ps arbitrary: s)
  case (Cons p ps)
  define u where "u = queue_deferral (fst p) w s"
  have u: "ll_commitment_proofs u = ll_commitment_proofs s" "committed_tracker u = committed_tracker s"
      "hm_contains (pending_deferral_hashes u) h \<longleftrightarrow> hm_contains (pending_deferral_hashes s) h \<or> h = fst p" for h
    using Cons.prems(1) by (auto simp: u_def queue_deferral_def)
  have step: "fold (\<lambda>(l, v). queue_deferral l v) (p # ps) s = fold (\<lambda>(l, v). queue_deferral l v) ps u"
    using Cons.prems(2) by (cases p) (simp add: u_def)
  have "hm_get (ll_commitment_proofs u) w = Some proof" "\<forall>(l, v) \<in> set ps. v = w" using Cons.prems u(1) by auto
  from Cons.IH [OF this] show ?case unfolding step by (auto simp: u)
qed simp

text \<open>The deferral of a loser, as it is queued for the next block.\<close>

definition deferral_for :: "hash \<Rightarrow> commitment_proof \<Rightarrow> hash \<Rightarrow> transaction_defer" where
  "deferral_for winner p loser = defer_new loser winner 0 \<lparr>cy_winner_tx_hash = winner, cy_winner_commitment = p\<rparr>"

lemma queue_losers_list:
  assumes "hm_get (ll_commitment_proofs s) w = Some p" "\<forall>(l, v) \<in> set ps. v = w"
  shows "set (pending_deferrals (fold (\<lambda>(l, v). queue_deferral l v) ps s)) = set (pending_deferrals s)
    \<union> deferral_for w p ` {l \<in> fst ` set ps. \<not> hm_contains (pending_deferral_hashes s) l}"
  using assms
proof (induction ps arbitrary: s)
  case (Cons x ps)
  define u where "u = queue_deferral (fst x) w s"
  have u: "ll_commitment_proofs u = ll_commitment_proofs s"
      "hm_contains (pending_deferral_hashes u) h \<longleftrightarrow> hm_contains (pending_deferral_hashes s) h \<or> h = fst x"
      "set (pending_deferrals u) = set (pending_deferrals s)
         \<union> (if hm_contains (pending_deferral_hashes s) (fst x) then {} else {deferral_for w p (fst x)})" for h
    using Cons.prems(1) by (auto simp: u_def queue_deferral_def deferral_for_def)
  have step: "fold (\<lambda>(l, v). queue_deferral l v) (x # ps) s = fold (\<lambda>(l, v). queue_deferral l v) ps u"
    using Cons.prems(2) by (cases x) (simp add: u_def)
  have "hm_get (ll_commitment_proofs u) w = Some p" "\<forall>(l, v) \<in> set ps. v = w" using Cons.prems u(1) by auto
  from Cons.IH [OF this] show ?case unfolding step u(3) by (auto simp: u(2))
qed simp

text \<open>
  The queue of deferrals: one per transaction, mirrored by the hash set, each with a proof for a
  winner of smaller hash.
\<close>

definition deferrals_wf :: "livelock_state \<Rightarrow> bool" where
  "deferrals_wf s \<longleftrightarrow> distinct (map td_tx_hash (pending_deferrals s))
     \<and> (\<forall>h. hm_contains (pending_deferral_hashes s) h \<longleftrightarrow> h \<in> td_tx_hash ` set (pending_deferrals s))
     \<and> (\<forall>d \<in> set (pending_deferrals s). winner_hash d < td_tx_hash d \<and> cy_winner_tx_hash (td_proof d) = winner_hash d)"

lemma deferrals_wf_queue: "deferrals_wf s \<Longrightarrow> w < l \<Longrightarrow> deferrals_wf (queue_deferral l w s)"
  unfolding deferrals_wf_def queue_deferral_def
  by (auto simp: defer_new_def winner_hash_def split: option.split)

lemma deferrals_wf_queue_all:
  "deferrals_wf s \<Longrightarrow> \<forall>(l, w) \<in> set ps. w < l \<Longrightarrow> deferrals_wf (fold (\<lambda>(l, w). queue_deferral l w) ps s)"
proof (induction ps arbitrary: s)
  case (Cons p ps)
  then show ?case by (cases p) (auto intro: deferrals_wf_queue)
qed simp

definition livelock_wf :: "livelock_state \<Rightarrow> bool" where
  "livelock_wf s \<longleftrightarrow> tracker_wf (committed_tracker s) \<and> deferrals_wf s"

lemma check_for_cycle_spec:
  assumes wf: "livelock_wf s" and stored: "hm_get (ll_commitment_proofs s) remote = Some proof"
  shows "livelock_wf (check_for_cycle remote source nodes s)"
    and "hm_contains (pending_deferral_hashes (check_for_cycle remote source nodes s)) h \<longleftrightarrow>
      hm_contains (pending_deferral_hashes s) h
      \<or> (needs_shard (committed_tracker s) h source \<and> remote < h \<and> overlaps (committed_tracker s) h source nodes)"
    and "committed_tracker (check_for_cycle remote source nodes s) = committed_tracker s"
    and "set (pending_deferrals (check_for_cycle remote source nodes s)) = set (pending_deferrals s)
      \<union> deferral_for remote proof ` {h. needs_shard (committed_tracker s) h source \<and> remote < h
          \<and> overlaps (committed_tracker s) h source nodes \<and> h \<notin> td_tx_hash ` set (pending_deferrals s)}"
proof -
  from wf have t: "tracker_wf (committed_tracker s)" and d: "deferrals_wf s" by (auto simp: livelock_wf_def)
  let ?ps = "cycle_losers s remote source nodes"
  have all: "\<forall>(l, v) \<in> set (?ps ls). v = remote" "\<forall>(l, v) \<in> set (?ps ls). v < l" for ls
    by (auto simp: cycle_losers_iff)
  note queue = queue_losers [OF stored all(1), THEN conjunct1, rule_format]
    queue_losers [OF stored all(1), THEN conjunct2]
  have img: "h \<in> fst ` set (?ps ls) \<longleftrightarrow> h \<in> set ls \<and> remote < h \<and> overlaps (committed_tracker s) h source nodes" for ls h
    using cycle_losers_iff [of h remote s remote source nodes ls] cycle_losers_iff [of h _ s remote source nodes ls]
    by (auto simp: image_iff) (metis fst_conv)
  show "hm_contains (pending_deferral_hashes (check_for_cycle remote source nodes s)) h \<longleftrightarrow>
      hm_contains (pending_deferral_hashes s) h
      \<or> (needs_shard (committed_tracker s) h source \<and> remote < h \<and> overlaps (committed_tracker s) h source nodes)"
    by (rule txs_needing_shard_cases [OF t, of source]) (simp_all add: check_for_cycle_def queue(1) img)
  have mirror: "hm_contains (pending_deferral_hashes s) h \<longleftrightarrow> h \<in> td_tx_hash ` set (pending_deferrals s)" for h
    using d unfolding deferrals_wf_def by blast
  have lst: "set (pending_deferrals (fold (\<lambda>(l, v). queue_deferral l v) (?ps ls) s)) = set (pending_deferrals s)
    \<union> deferral_for remote proof ` {h. h \<in> set ls \<and> remote < h \<and> overlaps (committed_tracker s) h source nodes
        \<and> h \<notin> td_tx_hash ` set (pending_deferrals s)}" for ls
  proof -
    have "{l \<in> fst ` set (?ps ls). \<not> hm_contains (pending_deferral_hashes s) l} = {h. h \<in> set ls \<and> remote < h
        \<and> overlaps (committed_tracker s) h source nodes \<and> h \<notin> td_tx_hash ` set (pending_deferrals s)}"
      unfolding mirror img by blast
    then show ?thesis unfolding queue_losers_list [OF stored all(1)] by simp
  qed
  show "set (pending_deferrals (check_for_cycle remote source nodes s)) = set (pending_deferrals s)
      \<union> deferral_for remote proof ` {h. needs_shard (committed_tracker s) h source \<and> remote < h
          \<and> overlaps (committed_tracker s) h source nodes \<and> h \<notin> td_tx_hash ` set (pending_deferrals s)}"
    by (rule txs_needing_shard_cases [OF t, of source]) (simp_all add: check_for_cycle_def lst)
  show tr: "committed_tracker (check_for_cycle remote source nodes s) = committed_tracker s"
    by (simp add: check_for_cycle_def queue(2) split: option.split)
  show "livelock_wf (check_for_cycle remote source nodes s)"
    unfolding livelock_wf_def tr using t d deferrals_wf_queue_all [OF d all(2)]
    by (simp add: check_for_cycle_def split: option.split)
qed

section \<open>Runs\<close>

lemma deferrals_wf_cong:
  "pending_deferrals t = pending_deferrals s \<Longrightarrow> pending_deferral_hashes t = pending_deferral_hashes s \<Longrightarrow>
   deferrals_wf t = deferrals_wf s"
  by (simp add: deferrals_wf_def)

lemma on_provision_quorum_fresh:
  assumes "\<not> hm_contains (deferred_tombstones s) remote" "\<not> hm_contains (provision_tracker s) (remote, source)"
  shows "on_provision_quorum_reached remote source proof s =
    check_for_cycle remote source (cp_nodes proof)
      (s\<lparr>provision_tracker := hs_insert (remote, source) (provision_tracker s),
         ll_commitment_proofs := hm_insert remote proof (ll_commitment_proofs s)\<rparr>)"
  using assms by (simp add: on_provision_quorum_reached_def provision_add_def Let_def)

lemma livelock_wf_provision: "livelock_wf s \<Longrightarrow> livelock_wf (on_provision_quorum_reached remote source proof s)"
proof -
  assume wf: "livelock_wf s"
  have other: "livelock_wf (s\<lparr>provision_tracker := x\<rparr>)"
      "livelock_wf (s\<lparr>provision_tracker := x, ll_commitment_proofs := y\<rparr>)" for x y
    using wf by (simp_all add: livelock_wf_def deferrals_wf_def)
  consider "hm_contains (deferred_tombstones s) remote"
    | "\<not> hm_contains (deferred_tombstones s) remote" "hm_contains (provision_tracker s) (remote, source)"
    | "\<not> hm_contains (deferred_tombstones s) remote" "\<not> hm_contains (provision_tracker s) (remote, source)"
    by blast
  then show ?thesis
  proof cases
    case 3
    show ?thesis
      unfolding on_provision_quorum_fresh [OF 3]
      by (rule check_for_cycle_spec(1) [OF other(2)]) (simp add: hm_get_insert)
  qed (simp_all add: on_provision_quorum_reached_def provision_add_def Let_def wf other)
qed

lemma livelock_wf_committed:
  assumes "livelock_wf s" "\<not> hm_contains (tx_needs (committed_tracker s)) (tx_hash tx)"
  shows "livelock_wf (on_cross_shard_committed tx s)"
proof -
  have none: "\<not> needs_shard (committed_tracker s) (tx_hash tx) sh" for sh
    using assms(2) by (simp add: needs_shard_def hm_contains_def)
  show ?thesis
    using assms(1) none
    by (auto simp: on_cross_shard_committed_def Let_def livelock_wf_def deferrals_wf_def intro!: tracker_wf_add)
qed

lemma livelock_wf_forget: "livelock_wf s \<Longrightarrow> livelock_wf (forget_tx h s)"
  by (simp add: forget_tx_def livelock_wf_def tracker_wf_remove deferrals_wf_def)

lemma forget_wf_all:
  "livelock_wf s \<Longrightarrow> livelock_wf (fold (\<lambda>d. on_deferral_committed (f d)) ds s)"
  "livelock_wf s \<Longrightarrow> livelock_wf (fold (\<lambda>a. on_abort_committed (g a)) as s)"
  "livelock_wf s \<Longrightarrow> livelock_wf (fold (\<lambda>c. on_certificate_committed (k c)) cs s)"
proof -
  have time: "livelock_wf (s\<lparr>deferred_tombstones := x\<rparr>) = livelock_wf s" for s x
    by (simp add: livelock_wf_def deferrals_wf_def)
  show "livelock_wf s \<Longrightarrow> livelock_wf (fold (\<lambda>d. on_deferral_committed (f d)) ds s)"
    by (induction ds arbitrary: s) (simp_all add: on_deferral_committed_def livelock_wf_forget time)
  show "livelock_wf s \<Longrightarrow> livelock_wf (fold (\<lambda>a. on_abort_committed (g a)) as s)"
    by (induction as arbitrary: s) (simp_all add: on_abort_committed_def livelock_wf_forget)
  show "livelock_wf s \<Longrightarrow> livelock_wf (fold (\<lambda>c. on_certificate_committed (k c)) cs s)"
    by (induction cs arbitrary: s) (simp_all add: on_certificate_committed_def livelock_wf_forget)
qed

lemma contains_fold_remove:
  "hm_contains (fold (\<lambda>d. hm_remove (f d)) ds m) h \<longleftrightarrow> hm_contains m h \<and> h \<notin> f ` set ds"
  by (induction ds arbitrary: m) auto

lemma distinct_map_filter_deferrals: "distinct (map f xs) \<Longrightarrow> distinct (map f (filter P xs))"
  by (induction xs) auto

lemma livelock_wf_block: "livelock_wf s \<Longrightarrow> livelock_wf (livelock_on_block_committed b s)"
proof -
  assume "livelock_wf s"
  then obtain t where t: "livelock_wf t" and r: "livelock_on_block_committed b s =
      (let hashes = fold (\<lambda>d. hm_remove (td_tx_hash d)) (bl_deferred b) (pending_deferral_hashes t)
       in t\<lparr>pending_deferral_hashes := hashes,
            pending_deferrals := filter (\<lambda>d. hm_contains hashes (td_tx_hash d)) (pending_deferrals t)\<rparr>)"
    using forget_wf_all unfolding livelock_on_block_committed_def Let_def by blast
  have "deferrals_wf (livelock_on_block_committed b s)"
    using t unfolding r livelock_wf_def deferrals_wf_def Let_def
    by (auto simp: contains_fold_remove distinct_map_filter_deferrals)
  then show ?thesis using t by (simp add: livelock_wf_def r Let_def)
qed

text \<open>A node's livelock state over time; a transaction is committed once.\<close>

inductive livelock_reachable :: "livelock_state \<Rightarrow> bool" where
  ll_new: "livelock_reachable (livelock_with_config shard T cfg)"
| ll_time: "livelock_reachable s \<Longrightarrow> livelock_reachable (livelock_set_time t s)"
| ll_committed: "livelock_reachable s \<Longrightarrow> \<not> hm_contains (tx_needs (committed_tracker s)) (tx_hash tx)
    \<Longrightarrow> livelock_reachable (on_cross_shard_committed tx s)"
| ll_provision: "livelock_reachable s \<Longrightarrow> livelock_reachable (on_provision_quorum_reached remote source proof s)"
| ll_block: "livelock_reachable s \<Longrightarrow> livelock_reachable (livelock_on_block_committed b s)"
| ll_cleanup: "livelock_reachable s \<Longrightarrow> livelock_reachable (livelock_cleanup s)"

lemma livelock_reachable_wf: "livelock_reachable s \<Longrightarrow> livelock_wf s"
proof (induction rule: livelock_reachable.induct)
  case (ll_new shard T cfg)
  show ?case by (simp add: livelock_with_config_def livelock_wf_def tracker_wf_new deferrals_wf_def)
qed (simp_all add: livelock_wf_provision livelock_wf_committed livelock_wf_block,
     simp_all add: livelock_wf_def deferrals_wf_def livelock_set_time_def livelock_cleanup_def)

text \<open>
  The same runs with the quorums received so far: each remote transaction with the proof that came
  with it.
\<close>

inductive livelock_history :: "(hash \<times> commitment_proof) set \<Rightarrow> livelock_state \<Rightarrow> bool" where
  hist_new: "livelock_history {} (livelock_with_config shard T cfg)"
| hist_time: "livelock_history R s \<Longrightarrow> livelock_history R (livelock_set_time t s)"
| hist_committed: "livelock_history R s \<Longrightarrow> \<not> hm_contains (tx_needs (committed_tracker s)) (tx_hash tx)
    \<Longrightarrow> livelock_history R (on_cross_shard_committed tx s)"
| hist_provision: "livelock_history R s
    \<Longrightarrow> livelock_history (insert (remote, proof) R) (on_provision_quorum_reached remote source proof s)"
| hist_block: "livelock_history R s \<Longrightarrow> livelock_history R (livelock_on_block_committed b s)"
| hist_cleanup: "livelock_history R s \<Longrightarrow> livelock_history R (livelock_cleanup s)"

lemma history_reachable: "livelock_history R s \<Longrightarrow> livelock_reachable s"
  by (induction rule: livelock_history.induct) (auto intro: livelock_reachable.intros)

definition proofs_received :: "(hash \<times> commitment_proof) set \<Rightarrow> livelock_state \<Rightarrow> bool" where
  "proofs_received R s \<longleftrightarrow>
     (\<forall>w p. hm_get (ll_commitment_proofs s) w = Some p \<longrightarrow> (w, p) \<in> R)
     \<and> (\<forall>d \<in> set (pending_deferrals s). (winner_hash d, cy_winner_commitment (td_proof d)) \<in> R)"

lemma proofs_received_quorum:
  assumes wf: "livelock_wf s" and "proofs_received R s"
  shows "proofs_received (insert (remote, proof) R) (on_provision_quorum_reached remote source proof s)"
proof -
  let ?R = "insert (remote, proof) R"
  have grow: "proofs_received ?R s" using assms(2) by (auto simp: proofs_received_def)
  let ?t = "s\<lparr>provision_tracker := hs_insert (remote, source) (provision_tracker s),
         ll_commitment_proofs := hm_insert remote proof (ll_commitment_proofs s)\<rparr>"
  have t: "livelock_wf ?t" using wf by (simp add: livelock_wf_def deferrals_wf_def)
  have kept: "ll_commitment_proofs (queue_deferral l w u) = ll_commitment_proofs u" for l w u
    by (simp add: queue_deferral_def split: option.split)
  have "ll_commitment_proofs (fold (\<lambda>(l, v). queue_deferral l v) ps u) = ll_commitment_proofs u" for ps u
    by (induction ps arbitrary: u) (auto simp: kept)
  then have proofs: "ll_commitment_proofs (check_for_cycle remote source nodes u) = ll_commitment_proofs u" for nodes u
    by (simp add: check_for_cycle_def split: option.split)
  have "proofs_received ?R (check_for_cycle remote source (cp_nodes proof) ?t)"
    using grow check_for_cycle_spec(4) [OF t, of remote "proof" source "cp_nodes proof"]
    by (auto simp: proofs_received_def proofs hm_get_insert deferral_for_def defer_new_def winner_hash_def split: if_splits)
  then show ?thesis
    using grow by (auto simp: on_provision_quorum_reached_def provision_add_def Let_def proofs_received_def)
qed

lemma proofs_received_forget: "proofs_received R s \<Longrightarrow> proofs_received R (forget_tx h s)"
  by (auto simp: forget_tx_def proofs_received_def split: if_splits)

lemma proofs_received_block:
  assumes "proofs_received R s"
  shows "proofs_received R (livelock_on_block_committed b s)"
proof -
  have time: "proofs_received R (s\<lparr>deferred_tombstones := x\<rparr>) = proofs_received R s" for s x
    by (simp add: proofs_received_def)
  have "proofs_received R s \<Longrightarrow> proofs_received R (fold (\<lambda>d. on_deferral_committed (f d)) ds s)" for f s and ds :: "transaction_defer list"
    by (induction ds arbitrary: s) (simp_all add: on_deferral_committed_def proofs_received_forget time)
  moreover have "proofs_received R s \<Longrightarrow> proofs_received R (fold (\<lambda>a. on_abort_committed (g a)) as s)" for g s and as :: "transaction_abort list"
    by (induction as arbitrary: s) (simp_all add: on_abort_committed_def proofs_received_forget)
  moreover have "proofs_received R s \<Longrightarrow> proofs_received R (fold (\<lambda>c. on_certificate_committed (k c)) cs s)" for k s and cs :: "transaction_certificate list"
    by (induction cs arbitrary: s) (simp_all add: on_certificate_committed_def proofs_received_forget)
  ultimately obtain t where t: "proofs_received R t" and r: "livelock_on_block_committed b s =
      (let hashes = fold (\<lambda>d. hm_remove (td_tx_hash d)) (bl_deferred b) (pending_deferral_hashes t)
       in t\<lparr>pending_deferral_hashes := hashes,
            pending_deferrals := filter (\<lambda>d. hm_contains hashes (td_tx_hash d)) (pending_deferrals t)\<rparr>)"
    using assms unfolding livelock_on_block_committed_def Let_def by blast
  show ?thesis using t unfolding r by (simp add: proofs_received_def Let_def)
qed

lemma history_proofs_received: "livelock_history R s \<Longrightarrow> proofs_received R s"
proof (induction rule: livelock_history.induct)
  case (hist_provision R s remote "proof" source)
  then show ?case by (intro proofs_received_quorum livelock_reachable_wf history_reachable)
qed (simp_all add: proofs_received_block,
     simp_all add: proofs_received_def livelock_with_config_def livelock_set_time_def livelock_cleanup_def
       on_cross_shard_committed_def Let_def)

text \<open>The queue after the first quorum for a remote transaction.\<close>

lemma quorum_queue:
  assumes "livelock_reachable s"
    and "\<not> hm_contains (deferred_tombstones s) remote" "\<not> hm_contains (provision_tracker s) (remote, source)"
  shows "set (pending_deferrals (on_provision_quorum_reached remote source proof s)) =
    set (pending_deferrals s) \<union> deferral_for remote proof `
      {h. needs_shard (committed_tracker s) h source \<and> remote < h
        \<and> overlaps (committed_tracker s) h source (cp_nodes proof) \<and> h \<notin> td_tx_hash ` set (pending_deferrals s)}"
proof -
  let ?t = "s\<lparr>provision_tracker := hs_insert (remote, source) (provision_tracker s),
         ll_commitment_proofs := hm_insert remote proof (ll_commitment_proofs s)\<rparr>"
  have "livelock_wf ?t" using livelock_reachable_wf [OF assms(1)] by (simp add: livelock_wf_def deferrals_wf_def)
  then show ?thesis
    unfolding on_provision_quorum_fresh [OF assms(2,3)]
    using check_for_cycle_spec(4) [of ?t remote "proof" source "cp_nodes proof"] by (simp add: hm_get_insert)
qed

section \<open>An example\<close>

text \<open>
  Two shards for the evaluations: node 1 lives in shard 1 and every other node in shard 0.  The
  transaction with hash 9 was committed in shard 0 and needs node 1, the one with hash 4 was
  committed in shard 1 and needs node 0.
\<close>

definition two_shards :: topology where
  "two_shards = (static_topology_dyn (\<lambda>_. 0) (static_new 0 2 four_validators))
     \<lparr>shard_for_node_id := (\<lambda>n. if n = 1 then 1 else 0)\<rparr>"

definition example_tx :: "hash \<Rightarrow> node_id \<Rightarrow> node_id \<Rightarrow> routable_transaction" where
  "example_tx h r w = tx_new (\<lambda>_. h) id [] [r] [w]"

definition example_state :: "shard_group_id \<Rightarrow> hash \<Rightarrow> livelock_state" where
  "example_state shard h = on_cross_shard_committed (example_tx h (if shard = 0 then 1 else 0) (if shard = 0 then 0 else 1))
     (livelock_with_config shard two_shards livelock_config_default)"

definition example_proof :: "hash \<Rightarrow> node_id \<Rightarrow> commitment_proof" where
  "example_proof h n = \<lparr>cp_tx_hash = h, cp_source_shard = 0, cp_signers = bf_new 4, cp_aggregated_signature = [],
     cp_block_height = 1, cp_block_timestamp = 0,
     cp_entries = [\<lparr>se_storage_key = replicate 26 0 @ node_bytes n, se_value = None\<rparr>]\<rparr>"

lemma example_reachable: "livelock_reachable (example_state shard h)"
  unfolding example_state_def
  by (intro ll_committed ll_new) (simp add: livelock_with_config_def tracker_new_def)

lemma example_fresh:
  "\<not> hm_contains (deferred_tombstones (example_state shard h)) r" "\<not> hm_contains (provision_tracker (example_state shard h)) p"
  "\<not> hm_contains (pending_deferral_hashes (example_state shard h)) r"
  by (simp_all add: example_state_def on_cross_shard_committed_def livelock_with_config_def Let_def)

lemma example_tracker:
  "tx_needs (committed_tracker (example_state 0 h)) =
     hm_insert h \<lparr>rn_shards = hs_collect (hm_keys (index_add 1 (1 :: node_id) hm_empty)), rn_nodes_by_shard = index_add 1 1 hm_empty\<rparr> hm_empty"
  "tx_needs (committed_tracker (example_state 1 h)) =
     hm_insert h \<lparr>rn_shards = hs_collect (hm_keys (index_add 0 (0 :: node_id) hm_empty)), rn_nodes_by_shard = index_add 0 0 hm_empty\<rparr> hm_empty"
proof -
  have ne: "hm_len (hs_collect (hm_keys (index_add a b hm_empty))) \<noteq> 0" for a :: u64 and b :: node_id
    using hs_contains_collect [of "hm_keys (index_add a b hm_empty)" a] unfolding hm_no_entries
    by (auto simp: hm_keys_iff index_add_def hm_contains_def)
  show "tx_needs (committed_tracker (example_state 0 h)) =
     hm_insert h \<lparr>rn_shards = hs_collect (hm_keys (index_add 1 (1 :: node_id) hm_empty)), rn_nodes_by_shard = index_add 1 1 hm_empty\<rparr> hm_empty"
    "tx_needs (committed_tracker (example_state 1 h)) =
     hm_insert h \<lparr>rn_shards = hs_collect (hm_keys (index_add 0 (0 :: node_id) hm_empty)), rn_nodes_by_shard = index_add 0 0 hm_empty\<rparr> hm_empty"
    by (simp_all add: ne example_state_def on_cross_shard_committed_def compute_remote_state_needs_def livelock_with_config_def
        two_shards_def example_tx_def tx_new_def tx_new_internal_def tracker_add_def tracker_new_def Let_def)
qed

lemma example_needs:
  "needs_shard (committed_tracker (example_state 0 h)) h 1" "needs_shard (committed_tracker (example_state 1 h)) h 0"
  by (simp_all add: needs_shard_def example_tracker hm_get_insert hm_keys_iff index_add_def)

lemma example_nodes: "hm_contains (cp_nodes (example_proof h n)) n"
proof -
  have "length (node_bytes n) = 30" by (simp add: node_bytes_def)
  then show ?thesis
    by (simp add: cp_nodes_def example_proof_def entry_node_id_def RADIX_PREFIX_LEN_def HASH_PREFIX_LEN_def
        List.map_filter_simps)
qed

lemma example_overlaps:
  "overlaps (committed_tracker (example_state 0 h)) h 1 (cp_nodes (example_proof k 1))"
  "overlaps (committed_tracker (example_state 1 h)) h 0 (cp_nodes (example_proof k 0))"
  using example_nodes [of k 1] example_nodes [of k 0]
  by (auto simp: overlaps_def nodes_needed_from_shard_def example_tracker hm_get_insert index_add_def)

definition example_quorum :: livelock_state where
  "example_quorum = on_provision_quorum_reached 4 1 (example_proof 4 1) (example_state 0 9)"

lemma example_history: "livelock_history {(4, example_proof 4 1)} example_quorum"
  unfolding example_quorum_def example_state_def
  by (intro hist_provision hist_committed hist_new) (simp add: livelock_with_config_def tracker_new_def)

lemma example_idle: "pending_deferrals (example_state shard h) = []"
  by (simp add: example_state_def on_cross_shard_committed_def livelock_with_config_def Let_def)

lemma example_only: "needs_shard (committed_tracker (example_state 0 h)) k 1 \<Longrightarrow> k = h"
  by (simp add: needs_shard_def example_tracker hm_get_insert split: if_splits)

lemma example_quorum_queue: "set (pending_deferrals example_quorum) = {deferral_for 4 (example_proof 4 1) 9}"
proof -
  have "{h. needs_shard (committed_tracker (example_state 0 9)) h 1 \<and> (4 :: hash) < h
      \<and> overlaps (committed_tracker (example_state 0 9)) h 1 (cp_nodes (example_proof 4 1))} = {9}"
    using example_needs(1) [of 9] example_overlaps(1) [of 9 4] example_only [of 9] by auto
  then show ?thesis
    using quorum_queue [OF example_reachable [of 0 9] example_fresh(1,2), of 4 1 "example_proof 4 1"]
    by (simp add: example_quorum_def example_idle)
qed

lemma distinct_singleton_set: "set xs = {x} \<Longrightarrow> distinct xs \<Longrightarrow> xs = [x]"
  by (cases xs) (auto simp: subset_singleton_iff)

section \<open>Properties\<close>

text \<open>
  C31: at all times at most one deferral per transaction is queued, every queued deferral names a
  winner with a smaller hash than the deferred transaction, in its reason and in its proof, and
  carries a commitment proof that was received with a quorum for that very winner; and the index
  of waiting transactions by shard agrees with what each transaction waits for.
\<close>

theorem queued_deferrals_sound:
  assumes "livelock_history R s"
  shows "distinct (map td_tx_hash (pending_deferrals s))
    \<and> (d \<in> set (pending_deferrals s) \<longrightarrow> winner_hash d < td_tx_hash d \<and> cy_winner_tx_hash (td_proof d) = winner_hash d
         \<and> (winner_hash d, cy_winner_commitment (td_proof d)) \<in> R)
    \<and> (index_has (shards_needed_by (committed_tracker s)) sh h \<longleftrightarrow> needs_shard (committed_tracker s) h sh)"
  using livelock_reachable_wf [OF history_reachable [OF assms]] history_proofs_received [OF assms]
  by (simp add: livelock_wf_def deferrals_wf_def tracker_wf_def proofs_received_def)

theorem queued_deferrals_sound_witness:
  "pending_deferrals example_quorum = [deferral_for 4 (example_proof 4 1) 9]
   \<and> (let d = hd (pending_deferrals example_quorum) in winner_hash d < td_tx_hash d
        \<and> (winner_hash d, cy_winner_commitment (td_proof d)) \<in> {(4, example_proof 4 1)})"
proof -
  note sound = queued_deferrals_sound [OF example_history]
  have "set (pending_deferrals example_quorum) = {deferral_for 4 (example_proof 4 1) 9}"
    by (rule example_quorum_queue)
  moreover have "distinct (pending_deferrals example_quorum)" using sound by (simp add: distinct_map)
  ultimately have queue: "pending_deferrals example_quorum = [deferral_for 4 (example_proof 4 1) 9]"
    by (rule distinct_singleton_set)
  then show ?thesis
    using sound [of "deferral_for 4 (example_proof 4 1) 9"] unfolding Let_def queue by (simp add: deferral_for_def defer_new_def)
qed

text \<open>
  C32: when the first quorum of provisions for a remote transaction arrives from a shard, the
  queue of deferrals for the next block grows by exactly one deferral for each local transaction
  that waits for that shard, needs a node the remote transaction has provisioned, has the larger
  hash and is not queued yet; the deferral names the remote transaction and carries the proof
  that came with the quorum.
\<close>

theorem quorum_defers_exactly_the_losers:
  assumes "livelock_reachable s"
    and "\<not> hm_contains (deferred_tombstones s) remote" "\<not> hm_contains (provision_tracker s) (remote, source)"
  shows "set (pending_deferrals (on_provision_quorum_reached remote source proof s)) =
    set (pending_deferrals s) \<union> deferral_for remote proof `
      {h. needs_shard (committed_tracker s) h source \<and> remote < h
        \<and> overlaps (committed_tracker s) h source (cp_nodes proof) \<and> h \<notin> td_tx_hash ` set (pending_deferrals s)}"
  by (rule quorum_queue [OF assms])

theorem quorum_defers_exactly_the_losers_witness:
  "deferral_for 4 (example_proof 4 1) 9
     \<in> set (pending_deferrals (on_provision_quorum_reached 4 1 (example_proof 4 1) (example_state 0 9)))"
  using quorum_defers_exactly_the_losers [OF example_reachable [of 0 9] example_fresh(1,2), of 4 1 "example_proof 4 1"]
    example_needs(1) example_overlaps(1) by (simp add: example_idle)



text \<open>
  C33: a cycle is only found if the local transaction is committed before the quorum arrives: if
  no tracked transaction waits for the source shard yet, the quorum is remembered as seen, the
  later commit of a waiting transaction queues nothing, and neither does a repeated quorum.
\<close>

theorem early_quorum_misses_cycle:
  assumes "livelock_reachable s" "\<And>h. \<not> needs_shard (committed_tracker s) h source"
    and "\<not> hm_contains (deferred_tombstones s) remote"
  shows "pending_deferral_hashes (on_provision_quorum_reached remote source proof
      (on_cross_shard_committed tx (on_provision_quorum_reached remote source proof s))) = pending_deferral_hashes s"
proof -
  have again: "on_provision_quorum_reached remote source proof u = u\<lparr>provision_tracker := hs_insert (remote, source) (provision_tracker u)\<rparr>"
    if "\<not> hm_contains (deferred_tombstones u) remote" "hm_contains (provision_tracker u) (remote, source)" for u
    using that by (simp add: on_provision_quorum_reached_def provision_add_def Let_def)
  have "tracker_wf (committed_tracker s)" using livelock_reachable_wf [OF assms(1)] by (simp add: livelock_wf_def)
  then have no_waiters: "txs_needing_shard (committed_tracker s) source \<in> {None, Some []}"
  proof (cases rule: txs_needing_shard_cases [of "committed_tracker s" source])
    case (2 hs)
    then show ?thesis using assms(2) by (cases hs) auto
  qed simp
  have idle: "check_for_cycle remote source nodes u = u" if u: "committed_tracker u = committed_tracker s" for nodes u
  proof (cases "txs_needing_shard (committed_tracker s) source")
    case None
    then show ?thesis by (simp add: check_for_cycle_def u)
  next
    case (Some hs)
    then have "hs = []" using no_waiters by simp
    then show ?thesis using Some by (simp add: check_for_cycle_def u cycle_losers_def List.map_filter_simps)
  qed
  define v where "v = on_provision_quorum_reached remote source proof s"
  have v: "pending_deferral_hashes v = pending_deferral_hashes s" "deferred_tombstones v = deferred_tombstones s"
      "hm_contains (provision_tracker v) (remote, source)"
    using assms(3) by (simp_all add: v_def on_provision_quorum_reached_def provision_add_def Let_def idle)
  have "pending_deferral_hashes (on_provision_quorum_reached remote source proof (on_cross_shard_committed tx v))
      = pending_deferral_hashes (on_cross_shard_committed tx v)"
    using v assms(3) by (subst again) (simp_all add: on_cross_shard_committed_def Let_def)
  then show ?thesis using v by (simp add: v_def [symmetric] on_cross_shard_committed_def Let_def)
qed

theorem early_quorum_misses_cycle_witness:
  "pending_deferral_hashes (on_provision_quorum_reached 4 1 (example_proof 4 1)
     (on_cross_shard_committed (example_tx 9 1 0)
       (on_provision_quorum_reached 4 1 (example_proof 4 1) (livelock_with_config 0 two_shards livelock_config_default))))
   = hm_empty"
  using early_quorum_misses_cycle [OF ll_new, of 0 two_shards livelock_config_default 1 4 "example_proof 4 1" "example_tx 9 1 0"]
  by (simp add: livelock_with_config_def tracker_new_def needs_shard_def)

end
