(* ===== verification/Qc_Builder.thy ===== *)
theory Qc_Builder
  imports Vote_Set "HOL-Library.Multiset"
begin

text \<open>
  Building a quorum certificate: the handling of \<open>VerifyAndBuildQuorumCertificate\<close> in
  \<open>crates/production/src/runner.rs\<close> with \<open>batch_verify_bls_same_message\<close> of
  \<open>crates/types/src/crypto.rs\<close>.

  The BLS library is outside the repository; the record \<open>bls_env\<close> holds the three functions the
  code calls.  The outer option of the builder is a panic of the signer bitfield.
\<close>

record bls_env =
  bls_verify :: "bytes \<Rightarrow> public_key \<Rightarrow> signature \<Rightarrow> bool"
  bls_aggregate :: "signature list \<Rightarrow> signature option"
  bls_aggregate_keys :: "public_key list \<Rightarrow> public_key option"

definition batch_verify_bls_same_message :: "bls_env \<Rightarrow> bytes \<Rightarrow> signature list \<Rightarrow> public_key list \<Rightarrow> bool" where
  "batch_verify_bls_same_message B message signatures pubkeys =
     (if length signatures \<noteq> length pubkeys then False
      else if signatures = [] then True
      else case bls_aggregate B signatures of
        None \<Rightarrow> False
      | Some agg_sig \<Rightarrow>
          (case bls_aggregate_keys B pubkeys of
             None \<Rightarrow> False
           | Some agg_pk \<Rightarrow> bls_verify B message agg_pk agg_sig))"

section \<open>Verification\<close>

definition drop_key :: "unverified_vote \<Rightarrow> verified_vote" where
  "drop_key = (\<lambda>(i, vote, _, voted). (i, vote, voted))"

definition vote_valid :: "bls_env \<Rightarrow> bytes \<Rightarrow> unverified_vote \<Rightarrow> bool" where
  "vote_valid B message = (\<lambda>(_, vote, key, _). bls_verify B message key (bv_signature vote))"

definition batch_valid :: "bls_env \<Rightarrow> bytes \<Rightarrow> unverified_vote list \<Rightarrow> bool" where
  "batch_valid B message votes =
     (if votes = [] then True
      else batch_verify_bls_same_message B message (map (\<lambda>(_, v, _, _). bv_signature v) votes)
             (map (\<lambda>(_, _, k, _). k) votes))"

definition all_verified :: "bls_env \<Rightarrow> bytes \<Rightarrow> unverified_vote list \<Rightarrow> verified_vote list \<Rightarrow> verified_vote list" where
  "all_verified B message to_verify already =
     already @ map drop_key (if batch_valid B message to_verify then to_verify
                             else filter (vote_valid B message) to_verify)"

section \<open>The certificate\<close>

primrec set_signers :: "usize list \<Rightarrow> signer_bitfield \<Rightarrow> signer_bitfield option" where
  "set_signers [] bf = Some bf"
| "set_signers (i # is) bf = (case bf_set bf i of None \<Rightarrow> None | Some b \<Rightarrow> set_signers is b)"

definition timestamp_weight :: "verified_vote list \<Rightarrow> u128" where
  "timestamp_weight votes = sum_list (map (\<lambda>(_, v, p). ucast (bv_timestamp v) * ucast p) votes)"

definition weighted_timestamp :: "verified_vote list \<Rightarrow> u64 \<Rightarrow> u64" where
  "weighted_timestamp votes pwr =
     (if pwr = 0 then 0 else ucast (timestamp_weight votes div ucast pwr))"

definition build_qc :: "bls_env \<Rightarrow> hash \<Rightarrow> block_height \<Rightarrow> u64 \<Rightarrow> hash \<Rightarrow> verified_vote list \<Rightarrow> u64
    \<Rightarrow> quorum_certificate option option" where
  "build_qc B blk height round parent votes pwr =
     (case bls_aggregate B (map (\<lambda>(_, v, _). bv_signature v) votes) of
        None \<Rightarrow> Some None
      | Some agg \<Rightarrow>
          let sorted_votes = sort_key fst votes;
              max_idx = fold max (map fst sorted_votes) 0
          in (case set_signers (map fst sorted_votes) (bf_new (max_idx + 1)) of
                None \<Rightarrow> None
              | Some signers \<Rightarrow>
                  Some (Some \<lparr>qc_block_hash = blk, qc_height = height, qc_parent_block_hash = parent,
                     qc_round = round, qc_signers = signers, qc_aggregated_signature = agg,
                     qc_voting_power = pwr,
                     qc_weighted_timestamp_ms = weighted_timestamp sorted_votes pwr\<rparr>)))"

definition verify_and_build_qc :: "bls_env \<Rightarrow> hash \<Rightarrow> block_height \<Rightarrow> u64 \<Rightarrow> hash \<Rightarrow> bytes
    \<Rightarrow> unverified_vote list \<Rightarrow> verified_vote list \<Rightarrow> u64
    \<Rightarrow> (quorum_certificate option \<times> verified_vote list) option" where
  "verify_and_build_qc B blk height round parent message to_verify already total_power =
     (let votes = all_verified B message to_verify already;
          pwr = sum_list (map vote_power votes)
      in if has_quorum pwr total_power \<and> votes \<noteq> [] then
           map_option (\<lambda>qc. (qc, if qc = None then votes else []))
             (build_qc B blk height round parent votes pwr)
         else Some (None, votes))"

section \<open>Facts\<close>

lemma set_signers_spec:
  "bf_wf bf \<Longrightarrow> \<exists>b. set_signers is bf = Some b \<and> bf_wf b \<and> bf_members b = bf_members bf \<union> (set is \<inter> {..<bf_num_validators bf})"
proof -
  have "set_signers is bf = bf.add_all is bf"
    by (induction "is" arbitrary: bf) (simp_all split: option.split)
  then show "bf_wf bf \<Longrightarrow> \<exists>b. set_signers is bf = Some b \<and> bf_wf b
      \<and> bf_members b = bf_members bf \<union> (set is \<inter> {..<bf_num_validators bf})"
    using bf.add_all_spec [of bf "is"] by auto
qed

lemma fold_max_ge: "fold max xs (m :: nat) \<ge> m \<and> (\<forall>x \<in> set xs. x \<le> fold max xs m)"
proof (induction xs arbitrary: m)
  case (Cons x xs)
  show ?case using Cons [of "max x m"] by auto
qed simp

lemma signers_of_votes:
  "\<exists>b. set_signers is (bf_new (fold max is 0 + 1)) = Some b \<and> bf_wf b \<and> set (bf_set_indices b) = set is"
proof -
  have "bf_num_validators (bf_new n) = n" for n by (simp add: bf_new_def)
  moreover have "set is \<inter> {..<fold max is 0 + 1} = set is" using fold_max_ge [of 0 "is"] by (auto simp: less_Suc_eq_le)
  ultimately show ?thesis
    using set_signers_spec [OF bf_wf_new, of "is" "fold max is 0 + 1"] by (auto simp: bf_members_new set_bf_set_indices)
qed

lemma build_qc_cases:
  obtains "bls_aggregate B (map (\<lambda>(_, v, _). bv_signature v) votes) = None" "build_qc B h he r p votes pwr = Some None"
  | agg signers where "bls_aggregate B (map (\<lambda>(_, v, _). bv_signature v) votes) = Some agg"
      "set (bf_set_indices signers) = fst ` set votes" "bf_wf signers"
      "build_qc B h he r p votes pwr = Some (Some \<lparr>qc_block_hash = h, qc_height = he, qc_parent_block_hash = p,
         qc_round = r, qc_signers = signers, qc_aggregated_signature = agg, qc_voting_power = pwr,
         qc_weighted_timestamp_ms = weighted_timestamp (sort_key fst votes) pwr\<rparr>)"
proof (cases "bls_aggregate B (map (\<lambda>(_, v, _). bv_signature v) votes)")
  case None
  then show ?thesis using that(1) by (simp add: build_qc_def)
next
  case (Some agg)
  obtain b where b: "set_signers (map fst (sort_key fst votes)) (bf_new (fold max (map fst (sort_key fst votes)) 0 + 1)) = Some b"
      "bf_wf b" "set (bf_set_indices b) = set (map fst (sort_key fst votes))"
    using signers_of_votes by blast
  then show ?thesis using that(2) [OF Some _ b(2)] Some by (simp add: build_qc_def Let_def)
qed

text \<open>The weighted timestamp is a weighted mean: the 128-bit sum does not wrap.\<close>

lemma unat_timestamp_weight:
  assumes "sum_list (map (\<lambda>(_, _, p). unat p) votes) < 18446744073709551616"
  shows "unat (timestamp_weight votes) = sum_list (map (\<lambda>(_, v, p). unat (bv_timestamp v) * unat p) votes)
    \<and> sum_list (map (\<lambda>(_, v, p). unat (bv_timestamp v) * unat p) votes)
       \<le> 18446744073709551615 * sum_list (map (\<lambda>(_, _, p). unat p) votes)"
  using assms
proof (induction votes)
  case (Cons vote votes)
  obtain i v p where vote: "vote = (i, v, p)" by (cases vote)
  have IH: "unat (timestamp_weight votes) = sum_list (map (\<lambda>(_, v, p). unat (bv_timestamp v) * unat p) votes)"
      "sum_list (map (\<lambda>(_, v, p). unat (bv_timestamp v) * unat p) votes)
       \<le> 18446744073709551615 * sum_list (map (\<lambda>(_, _, p). unat p) votes)"
    using Cons by (simp_all add: vote)
  have "unat (bv_timestamp v) \<le> 18446744073709551615" using unat_less_u64 [of "bv_timestamp v"] by simp
  then have ts: "unat (bv_timestamp v) * unat p \<le> 18446744073709551615 * unat p" by (rule mult_le_mono1)
  have up: "unat (ucast (w :: u64) :: u128) = unat w" for w
    using unat_less_u64 [of w] by (simp add: unsigned_ucast_eq take_bit_nat_eq_self)
  have "unat p < 18446744073709551616" by (rule unat_less_u64)
  then have "unat (bv_timestamp v) * unat p < 340282366920938463463374607431768211456" using ts by linarith
  then have prod: "unat (ucast (bv_timestamp v) * ucast p :: u128) = unat (bv_timestamp v) * unat p"
    by (simp add: unat_word_ariths up)
  have total: "unat p + sum_list (map (\<lambda>(_, _, p). unat p) votes) < 18446744073709551616" using Cons.prems by (simp add: vote)
  then have "unat (bv_timestamp v) * unat p + unat (timestamp_weight votes) < 340282366920938463463374607431768211456"
    using ts IH by linarith
  then have "unat (timestamp_weight (vote # votes)) = unat (bv_timestamp v) * unat p + unat (timestamp_weight votes)"
    by (simp add: vote timestamp_weight_def [of "(i, v, p) # votes"] timestamp_weight_def [symmetric] unat_word_ariths(1) prod)
  then show ?case
    unfolding vote using IH(1) add_mono [OF ts IH(2)] by (simp only: list.map sum_list.Cons prod.case distrib_left)
qed (simp add: timestamp_weight_def)

lemma weighted_sum_bounds:
  assumes "\<forall>(_, v, _) \<in> set votes. lo \<le> unat (bv_timestamp v) \<and> unat (bv_timestamp v) \<le> hi"
  shows "lo * sum_list (map (\<lambda>(_, _, p). unat p) votes) \<le> sum_list (map (\<lambda>(_, v, p). unat (bv_timestamp v) * unat p) votes)
    \<and> sum_list (map (\<lambda>(_, v, p). unat (bv_timestamp v) * unat p) votes) \<le> hi * sum_list (map (\<lambda>(_, _, p). unat p) votes)"
  using assms
proof (induction votes)
  case (Cons vote votes)
  obtain i v p where vote: "vote = (i, v, p)" by (cases vote)
  have here: "lo * unat p \<le> unat (bv_timestamp v) * unat p" "unat (bv_timestamp v) * unat p \<le> hi * unat p"
    using Cons.prems by (auto simp: vote intro!: mult_le_mono1)
  have "\<forall>(_, v, _) \<in> set votes. lo \<le> unat (bv_timestamp v) \<and> unat (bv_timestamp v) \<le> hi" using Cons.prems by simp
  note rest = Cons.IH [OF this]
  show ?case
    unfolding vote using add_mono [OF here(1) conjunct1 [OF rest]] add_mono [OF here(2) conjunct2 [OF rest]]
    by (simp only: list.map sum_list.Cons prod.case distrib_left)
qed simp

lemma unat_sum_powers:
  "sum_list (map (\<lambda>(_, _, p). unat p) votes) < 18446744073709551616 \<Longrightarrow>
   unat (sum_list (map vote_power votes)) = sum_list (map (\<lambda>(_, _, p). unat p) votes)"
proof (induction votes)
  case (Cons vote votes)
  then show ?case by (cases vote) (simp add: unat_word_ariths)
qed simp

lemma weighted_timestamp_mean:
  assumes "sum_list (map (\<lambda>(_, _, p). unat p) votes) < 18446744073709551616" "sum_list (map vote_power votes) \<noteq> 0"
    and "\<forall>(_, v, _) \<in> set votes. lo \<le> bv_timestamp v \<and> bv_timestamp v \<le> hi"
  shows "lo \<le> weighted_timestamp votes (sum_list (map vote_power votes))
    \<and> weighted_timestamp votes (sum_list (map vote_power votes)) \<le> hi"
proof -
  define P where "P = sum_list (map (\<lambda>(_, _, p). unat p) votes)"
  define W where "W = sum_list (map (\<lambda>(_, v, p). unat (bv_timestamp v) * unat p) votes)"
  define d where "d = sum_list (map vote_power votes)"
  have P: "unat d = P" using unat_sum_powers [OF assms(1)] by (simp add: P_def d_def)
  have P0: "0 < P" using P assms(2) unat_eq_zero [of d] by (simp add: d_def [symmetric])
  have W: "unat (timestamp_weight votes) = W" using unat_timestamp_weight [OF assms(1)] by (simp add: W_def)
  have mean: "unat lo * P \<le> W" "W \<le> unat hi * P"
    using weighted_sum_bounds [of votes "unat lo" "unat hi"] assms(3)
    unfolding P_def W_def by (auto simp: word_le_nat_alt)
  have "unat lo \<le> W div P" "W div P \<le> unat hi"
    using P0 mean(1) div_le_mono [OF mean(2), of P] by (simp_all add: less_eq_div_iff_mult_less_eq)
  moreover have "unat (ucast d :: u128) = P"
    using P unat_less_u64 [of d] by (simp add: unsigned_ucast_eq take_bit_nat_eq_self)
  then have "unat (timestamp_weight votes div ucast d) = W div P" by (simp add: unat_div W)
  then have "unat (ucast (timestamp_weight votes div ucast d) :: u64) = W div P"
    using \<open>W div P \<le> unat hi\<close> unat_less_u64 [of hi] by (simp add: unsigned_ucast_eq take_bit_nat_eq_self)
  ultimately show ?thesis
    using assms(2) by (simp add: weighted_timestamp_def d_def [symmetric] word_le_nat_alt)
qed

lemma verify_and_build_cases:
  fixes B :: bls_env and message to_verify already
  defines "votes \<equiv> all_verified B message to_verify already"
  obtains "verify_and_build_qc B blk height round parent message to_verify already total_power = Some (None, votes)"
  | q where "verify_and_build_qc B blk height round parent message to_verify already total_power = Some (Some q, [])"
      "has_quorum (sum_list (map vote_power votes)) total_power" "qc_voting_power q = sum_list (map vote_power votes)"
      "set (bf_set_indices (qc_signers q)) = fst ` set votes"
      "qc_block_hash q = blk" "qc_height q = height" "qc_round q = round" "qc_parent_block_hash q = parent"
      "qc_weighted_timestamp_ms q = weighted_timestamp (sort_key fst votes) (sum_list (map vote_power votes))"
proof (cases "has_quorum (sum_list (map vote_power votes)) total_power \<and> votes \<noteq> []")
  case False
  then show ?thesis using that(1) by (auto simp: verify_and_build_qc_def votes_def Let_def)
next
  case True
  show ?thesis
  proof (cases rule: build_qc_cases [of B votes blk height round parent "sum_list (map vote_power votes)"])
    case 1
    then show ?thesis using that(1) True by (simp add: verify_and_build_qc_def votes_def Let_def)
  next
    case (2 agg signers)
    then show ?thesis using that(2) True by (simp add: verify_and_build_qc_def votes_def Let_def)
  qed
qed

section \<open>An example\<close>

text \<open>A signature scheme in which the aggregate is the concatenation, for the evaluations below.\<close>

definition plain_bls :: bls_env where
  "plain_bls = \<lparr>bls_verify = (\<lambda>m k s. k = s), bls_aggregate = (\<lambda>ss. Some (concat ss)), bls_aggregate_keys = (\<lambda>ks. Some (concat ks))\<rparr>"

definition plain_vote :: "u8 \<Rightarrow> u64 \<Rightarrow> block_vote" where
  "plain_vote k t = \<lparr>bv_block_hash = 7, bv_height = 1, bv_round = 0, bv_voter = 0, bv_signature = [k], bv_timestamp = t\<rparr>"

lemma plain_votes:
  "all_verified plain_bls m [(3, plain_vote 2 30, [2], 1)] [(0, plain_vote 0 10, 1), (2, plain_vote 1 20, 1)]
     = [(0, plain_vote 0 10, 1), (2, plain_vote 1 20, 1), (3, plain_vote 2 30, 1)]"
  by (simp add: all_verified_def batch_valid_def batch_verify_bls_same_message_def plain_bls_def plain_vote_def drop_key_def)

lemma plain_certificate:
  "\<exists>q. verify_and_build_qc plain_bls 7 1 0 6 m [(3, plain_vote 2 30, [2], 1)]
     [(0, plain_vote 0 10, 1), (2, plain_vote 1 20, 1)] 4 = Some (Some q, [])"
proof (cases rule: build_qc_cases [of plain_bls "[(0, plain_vote 0 10, 1), (2, plain_vote 1 20, 1), (3, plain_vote 2 30, 1)]" 7 1 0 6 3])
  case 1
  then show ?thesis by (simp add: plain_bls_def)
next
  case (2 agg signers)
  then show ?thesis by (simp add: verify_and_build_qc_def plain_votes has_quorum_def Let_def)
qed

section \<open>Properties\<close>

text \<open>
  C34: a certificate is backed by votes: its voting power is that of the votes counted and
  reaches the quorum rule, its signers are exactly the voters counted, it names the block,
  height, round and parent asked for, and each vote counted was verified before, or belongs to
  a batch that verified, or verified alone.
\<close>

theorem certificate_backed_by_votes:
  assumes "verify_and_build_qc B blk height round parent message to_verify already total_power = Some (Some q, returned)"
  shows "has_quorum (qc_voting_power q) total_power
    \<and> qc_voting_power q = sum_list (map vote_power (all_verified B message to_verify already))
    \<and> set (bf_set_indices (qc_signers q)) = fst ` set (all_verified B message to_verify already)
    \<and> qc_block_hash q = blk \<and> qc_height q = height \<and> qc_round q = round \<and> qc_parent_block_hash q = parent
    \<and> (v \<in> set (all_verified B message to_verify already) \<longrightarrow> v \<in> set already
         \<or> (\<exists>u \<in> set to_verify. v = drop_key u \<and> (batch_valid B message to_verify \<or> vote_valid B message u)))"
proof -
  have "v \<in> set (all_verified B message to_verify already) \<Longrightarrow> v \<in> set already
      \<or> (\<exists>u \<in> set to_verify. v = drop_key u \<and> (batch_valid B message to_verify \<or> vote_valid B message u))"
    by (auto simp: all_verified_def split: if_splits)
  then show ?thesis
    using assms
    by (cases rule: verify_and_build_cases [of B blk height round parent message to_verify already total_power]) auto
qed

theorem certificate_backed_by_votes_witness:
  "\<exists>q. verify_and_build_qc plain_bls 7 1 0 6 [] [(3, plain_vote 2 30, [2], 1)]
        [(0, plain_vote 0 10, 1), (2, plain_vote 1 20, 1)] 4 = Some (Some q, [])
     \<and> set (bf_set_indices (qc_signers q)) = {0, 2, 3} \<and> qc_voting_power q = 3"
proof -
  obtain q where q: "verify_and_build_qc plain_bls 7 1 0 6 [] [(3, plain_vote 2 30, [2], 1)]
        [(0, plain_vote 0 10, 1), (2, plain_vote 1 20, 1)] 4 = Some (Some q, [])"
    using plain_certificate by blast
  from certificate_backed_by_votes [OF q, of "(0, plain_vote 0 10, 1)"] q show ?thesis by (auto simp: plain_votes)
qed

text \<open>
  C35: the timestamp of a certificate cannot be pushed outside the range of the timestamps of the
  votes it counts, as long as the voting powers add up to less than 18446744073709551616: the
  128-bit sum and the conversion back to 64 bits lose nothing.
\<close>

theorem certificate_timestamp_in_range:
  assumes "verify_and_build_qc B blk height round parent message to_verify already total_power = Some (Some q, returned)"
    and "sum_list (map (\<lambda>(_, _, p). unat p) (all_verified B message to_verify already)) < 18446744073709551616"
    and "\<forall>(_, v, _) \<in> set (all_verified B message to_verify already). lo \<le> bv_timestamp v \<and> bv_timestamp v \<le> hi"
  shows "lo \<le> qc_weighted_timestamp_ms q \<and> qc_weighted_timestamp_ms q \<le> hi"
proof -
  define votes where "votes = all_verified B message to_verify already"
  have ms: "mset (sort_key fst votes) = mset votes" by simp
  have same: "sum_list (map f (sort_key fst votes)) = sum_list (map f votes)" for f :: "verified_vote \<Rightarrow> 'm::comm_monoid_add"
    by (metis ms mset_map sum_mset_sum_list)
  from assms(1) have q: "has_quorum (sum_list (map vote_power votes)) total_power"
      "qc_weighted_timestamp_ms q = weighted_timestamp (sort_key fst votes) (sum_list (map vote_power votes))"
    by (cases rule: verify_and_build_cases [of B blk height round parent message to_verify already total_power];
        simp add: votes_def)+
  have "sum_list (map vote_power votes) \<noteq> 0" using q(1) by (auto simp: has_quorum_def)
  then show ?thesis
    using weighted_timestamp_mean [of "sort_key fst votes" lo hi] assms(2,3)
    by (simp add: q(2) same votes_def [symmetric])
qed

theorem certificate_timestamp_in_range_witness:
  "\<exists>q. verify_and_build_qc plain_bls 7 1 0 6 [] [(3, plain_vote 2 30, [2], 1)]
        [(0, plain_vote 0 10, 1), (2, plain_vote 1 20, 1)] 4 = Some (Some q, [])
     \<and> 10 \<le> qc_weighted_timestamp_ms q \<and> qc_weighted_timestamp_ms q \<le> 30"
proof -
  obtain q where q: "verify_and_build_qc plain_bls 7 1 0 6 [] [(3, plain_vote 2 30, [2], 1)]
        [(0, plain_vote 0 10, 1), (2, plain_vote 1 20, 1)] 4 = Some (Some q, [])"
    using plain_certificate by blast
  have times: "bv_timestamp (plain_vote k t) = t" for k t by (simp add: plain_vote_def)
  from certificate_timestamp_in_range [OF q, of 10 30] q show ?thesis by (simp add: plain_votes times)
qed

text \<open>
  C36: a batch that does not reach the quorum makes the votes verified earlier count twice: the
  builder returns them together with the new ones, and adding what it returned to the vote set
  breaks the rule that a member is held once and adds their power a second time.
\<close>

theorem failed_batch_counts_twice:
  assumes "vset_wf vs" "verified_votes vs \<noteq> []"
    and "verify_and_build_qc B blk height round parent message to_verify (verified_votes vs) total_power = Some (None, returned)"
  shows "\<not> vset_wf (on_votes_verified returned vs)
    \<and> verified_power (on_votes_verified returned vs) = verified_power vs + verified_power vs
        + sum_list (map vote_power (map drop_key (if batch_valid B message to_verify then to_verify
                                                  else filter (vote_valid B message) to_verify)))"
proof -
  have returned: "returned = all_verified B message to_verify (verified_votes vs)"
    using assms(3)
    by (cases rule: verify_and_build_cases [of B blk height round parent message to_verify "verified_votes vs" total_power])
      simp_all
  have "vset_sums vs" using assms(1) by (simp add: vset_wf_def)
  then have sums: "vset_sums (on_votes_verified returned vs)" by (rule vset_sums_on_votes_verified)
  have "\<not> distinct (held_indices (on_votes_verified returned vs))"
    using assms(2) by (auto simp: held_indices_def returned all_verified_def neq_Nil_conv)
  then show ?thesis
    using sums \<open>vset_sums vs\<close> by (simp add: vset_wf_def vset_sums_def returned all_verified_def)
qed

theorem failed_batch_counts_twice_witness:
  "\<forall>E. verified_power (on_votes_verified [(0, plain_vote 0 10, 1)]
     (fst (add_verified_vote 0 (plain_vote 0 10) 1 (vset_new E None 4)))) = 2"
proof
  fix E
  let ?vs = "fst (add_verified_vote 0 (plain_vote 0 10) 1 (vset_new E None 4))"
  have vs: "vset_wf ?vs" by (rule vset_wf_add_verified) (simp_all add: vset_wf_new, simp add: vset_new_def)
  have votes: "verified_votes ?vs = [(0, plain_vote 0 10, 1)]" "verified_power ?vs = 1"
    by (simp_all add: add_verified_vote_def has_seen_validator_def vset_new_def push_verified_def mark_seen_def fix_block_def)
  have run: "verify_and_build_qc plain_bls 7 1 0 6 [] [] (verified_votes ?vs) 4 = Some (None, [(0, plain_vote 0 10, 1)])"
    by (simp add: verify_and_build_qc_def votes all_verified_def batch_valid_def has_quorum_def Let_def)
  show "verified_power (on_votes_verified [(0, plain_vote 0 10, 1)] ?vs) = 2"
    using failed_batch_counts_twice [OF vs _ run] votes by simp
qed

end
