(* ===== verification/Spec2Isabelle.thy ===== *)
theory Spec2Isabelle
  imports Scenarios Status_Text Livelock Qc_Builder
begin

text \<open>
  \<^bold>\<open>Verification of hyperscale-rs: consensus, cross-shard deferral and certificates\<close>

  \<^bold>\<open>The program.\<close>  hyperscale-rs is a sharded ledger.  Each shard runs a two-chain BFT consensus
  (\<open>crates/bft\<close>) over blocks of transactions; a block is committed once a block on top of it is
  certified.  All state machines are synchronous: they take an event and return actions, which a
  runner carries out and whose results come back as events.  Votes are collected in a vote set and
  turned into a quorum certificate by the runner (\<open>crates/production/src/runner.rs\<close>); headers are
  completed into blocks from gossiped transactions and certificates; transactions of several
  shards wait for provisions of state, and a cycle detector (\<open>crates/livelock\<close>) defers one of two
  transactions that wait for each other.  \<open>crates/types\<close> holds the data, the topology and the epochs.

  \<^bold>\<open>Conventions.\<close>  A Rust struct is a record, an enum a datatype, an integer a word of its width,
  except \<open>usize\<close> and durations (nanoseconds), which are \<open>nat\<close>.  A \<open>HashMap\<close> or \<open>BTreeMap\<close> is an
  association list without duplicate keys (\<open>hm_\<close> operations of \<open>Rust_Prelude\<close>); loops over a
  \<open>BTreeMap\<close> go through \<open>bm_keys\<close>, in key order.  A method with \<open>&mut self\<close> takes the state last and
  returns it, with the list of actions; \<open>Result\<close> and \<open>Option\<close> are sums and options, and a panic of
  \<open>with_local_shard\<close> or of a bitfield index is \<open>None\<close>.  Log output and metrics are left out.  Code that
  is not in the repository is an argument: \<open>crypto_env\<close> (blake3, the encoding of headers, signing),
  \<open>bls_env\<close> (verification and aggregation), \<open>hex_codec\<close>, the manifest encoder; what is
  needed of it (no collision, a hash is never zero) is a hypothesis of the theorem that needs it.

  \<^bold>\<open>Theories.\<close>
  \<^item> \<open>Rust_Prelude\<close>: machine integers, byte strings, maps and sets with their lemmas.
    \<open>Multi_Index\<close>: maps to sets kept as reverse indices, with the contract of an index as a locale
    and its interpretation.
  \<^item> \<open>Identifiers\<close> (\<open>types/src/identifiers.rs\<close>, \<open>hash.rs\<close>, \<open>signing.rs\<close>): heights, voting power and the
    quorum rule, hashes, the three signing messages, which are injective and disjoint.
    \<open>Signer_Bitfield\<close> (\<open>signer_bitfield.rs\<close>): refines a set of indices.  \<open>Merkle\<close>
    (\<open>hash.rs\<close>): the Merkle root binds the leaves.  \<open>State_Types\<close> (\<open>state.rs\<close>,
    \<open>proofs.rs\<close>), \<open>Transactions\<close> and \<open>Status_Text\<close> (\<open>transaction.rs\<close>): retries,
    the status life cycle, its text form and parser.  \<open>Blocks\<close> (\<open>block.rs\<close>,
    \<open>quorum_certificate.rs\<close>): headers, blocks, certificates, the transaction root.
  \<^item> \<open>Topology\<close> (\<open>topology.rs\<close>, \<open>validator.rs\<close>): the \<open>Topology\<close> trait as a record, the static topology,
    quorum intersection, proposer rotation.  \<open>Epochs\<close> (\<open>epoch.rs\<close>): epochs, hash ranges and the
    dynamic topology, as an inductive reachability relation.
  \<^item> \<open>Vote_Set\<close> (\<open>bft/src/vote_set.rs\<close>), \<open>Pending_Block\<close> (\<open>bft/src/pending.rs\<close>): invariants and the
    refinement of a completed block to the gossiped manifest.  \<open>Qc_Builder\<close>: the certificate
    builder of the runner and its composition with the vote set.
  \<^item> \<open>Bft_Core\<close>, \<open>Bft_Votes\<close>, \<open>Bft_Commit\<close>, \<open>Bft_Proposal\<close>, \<open>Bft_Header\<close> (\<open>bft/src/state.rs\<close>): the state
    and every handler of \<open>BftState\<close>, in the order timers and view, voting and verification,
    commit and sync, proposing and round change, header intake.  \<open>Bft_Machine\<close> puts
    the handlers together: \<open>bft_event\<close>, \<open>bft_handle\<close>, and the runs \<open>bft_run\<close>.  \<open>Vote_Rules\<close> and
    \<open>Commit_Order\<close> hold the lemmas on votes and on the order of commits; \<open>Scenarios\<close> a small
    committee with certified and pending blocks on which the witnesses run.
  \<^item> \<open>Livelock\<close> (\<open>livelock/src/tracker.rs\<close>, \<open>state.rs\<close>): the cycle detector, its reachable states and
    two detectors on two shards facing each other.
  \<^item> This theory: the properties of the consensus machine that span the \<open>Bft_\<close> theories.

  \<^bold>\<open>What is shown.\<close>  Committed blocks have consecutive heights in every run, and the commit and
  sync buffers stay well-formed (\<open>commits_consecutive\<close>, \<open>reachable_commit_buffers\<close>); quorums of correct
  validators agree (\<open>certificates_agree\<close>); a vote on arrival is unique and checked, and the
  branches where the code votes without these checks are stated as they are
  (\<open>conflicting_callback_votes\<close>, \<open>vote_before_state_root_verified\<close>, \<open>genesis_certificate_gets_vote\<close>); the
  timestamp window and the two-chain rule are characterised; proposals are fresh and survive the trip
  through the pending block; round changes make progress; certificates are backed by verified
  votes; of two transactions that wait for each other exactly one is put into the queue of deferrals.

  \<^bold>\<open>Recursion and fuel.\<close>  The commit loop terminates because each turn takes an entry out of
  \<open>pending_commits\<close>.  Committing and draining synced blocks call each other; the model runs
  \<open>try_drain_fuel\<close> with one more unit of fuel than there are buffered synced blocks, every round takes
  one of these blocks out, and \<open>sync_cycle_terminates\<close> shows the result solves the recursion equation of the code,
  so more fuel changes nothing.  The walk over the certified chain may not end for a cyclic chain;
  it is a partial function, and \<open>proposal_timer_terminates\<close> shows it returns when the stored headers
  passed validation and certificates name the height of the block they certify.

  \<^bold>\<open>Not modelled.\<close>  Encoders and decoders (sbor), which are derived or hand-written against a library
  outside the repository; signature schemes and blake3; the scrypto engine (\<open>crates/engine\<close>); network,
  storage, RPC, threads and metrics (\<open>crates/production\<close> apart from the certificate builder), which are
  input and output; the message structs (\<open>crates/messages\<close> apart from the header gossip), which have
  no behaviour; the simulators and load generators, which are test harnesses; mempool, execution and provisions
  (\<open>crates/mempool\<close>, \<open>crates/execution\<close>, \<open>crates/provisions\<close>) and the dispatch between the machines (\<open>crates/node\<close>): the model
  takes their events as inputs in any order, so the theorems on the modelled machines do not depend on them.
\<close>

section \<open>Committing\<close>

text \<open>
  C1: in every run of the consensus machine the blocks handed to execution have consecutive
  heights, from the one after the committed height at the start to the committed height at the
  end; no height is skipped, repeated or reordered, whatever events of \<open>bft_event\<close> arrive.  Restoring
  the chain from storage at start-up (\<open>on_chain_metadata_fetched\<close>), which sets the committed height
  directly, is not an event of these runs.
\<close>

theorem commits_consecutive:
  assumes "hash_never_zero E" "commit_wf E s" "bft_run E s evs t acts"
  shows "map (\<lambda>b. unat (bl_height b)) (committed_blocks acts)
       = [Suc (unat (committed_height s))..<Suc (unat (committed_height t))]"
  using bft_run_advances [OF assms(1,3)] assms(2) commit_chain_list by (simp add: advances_def)

theorem commits_consecutive_witness:
  "\<exists>t acts. bft_run demo_env demo_certified [Block_ready_to_commit 2 demo_qc] t acts
     \<and> map (\<lambda>b. unat (bl_height b)) (committed_blocks acts) = [1] \<and> committed_height t = 1"
proof -
  let ?r = "commit_one 2 (demo_block (demo_header 1 0 qc_genesis)) demo_certified"
  have run: "bft_run demo_env demo_certified [Block_ready_to_commit 2 demo_qc] (fst ?r) (snd ?r)"
    using bft_exec_run [of demo_env "[Block_ready_to_commit 2 demo_qc]" demo_certified] by (simp add: demo_commit)
  have "committed_height (fst ?r) = 1"
    by (simp add: commit_one_def cleanup_old_state_def record_leader_activity_def Let_def demo_block_def demo_header_def)
  moreover have "committed_height demo_certified = 0" by (simp add: demo_certified_def demo_state_simps)
  ultimately have "map (\<lambda>b. unat (bl_height b)) (committed_blocks (snd ?r)) = [1]
      \<and> committed_height (fst ?r) = 1"
    using commits_consecutive [OF demo_hash_never_zero demo_certified_wf run] by simp
  then show ?thesis
    using run by (elim conjE) (intro exI [of _ "fst ?r"] exI [of _ "snd ?r"] conjI)
qed

text \<open>
  C5: every state the machine can reach from a fresh start keeps the buffers of the commit and
  sync paths well-formed: no commit is buffered for height 0, and every buffered or pending
  synced block lies above the committed height and carries a certificate for its own hash.
\<close>

theorem reachable_commit_buffers:
  assumes "hash_never_zero E" "bft_run E (bft_new E i k T cfg rec) evs t acts"
  shows "commit_wf E t"
  using bft_run_advances [OF assms] commit_wf_new by (simp add: advances_def)

theorem reachable_commit_buffers_witness: "commit_wf demo_env (set_time 5 demo_state)"
proof -
  have "bft_run demo_env demo_state [Set_time 5] (set_time 5 demo_state) []"
    using bft_exec_run [of demo_env "[Set_time 5]" demo_state] by (simp add: bft_handle_def)
  then show ?thesis
    using reachable_commit_buffers [OF demo_hash_never_zero, of 0 "[]" demo_topology bft_config_default recovered_default]
    by (simp add: demo_state_def)
qed

text \<open>
  C6: the mutual recursion of commit and sync always returns: any number of turns above the
  number of buffered blocks gives the same result, and that result solves the recursion
  equation of the code, in which no turn counter occurs.
\<close>

theorem sync_cycle_terminates:
  assumes "hm_len (buffered_synced_blocks s) < n"
  shows "try_drain_fuel n E s = try_drain_buffered_synced_blocks E s
    \<and> try_drain_buffered_synced_blocks E s = try_drain_step (try_drain_buffered_synced_blocks E) E s"
  using assms try_drain_fuel_enough [of s n "Suc (hm_len (buffered_synced_blocks s))" E] try_drain_unfold
  by (simp add: try_drain_buffered_synced_blocks_def)

theorem sync_cycle_terminates_witness:
  "try_drain_fuel 3 demo_env demo_state = try_drain_buffered_synced_blocks demo_env demo_state"
  using sync_cycle_terminates [of demo_state 3 demo_env] by (simp add: demo_state_simps)

section \<open>Validation\<close>

text \<open>
  C7: the genesis certificate is accepted as the parent certificate of any next block, not only of
  the first one: a fallback header without content at the height after the committed one, from
  the proposer of its height and round, that carries the genesis certificate gets the node's
  vote whatever height that is and whatever parent hash the header names, if the node has not
  voted at the height and has not seen the header before.
\<close>

theorem genesis_certificate_gets_vote:
  assumes "bare g" "qc_is_genesis (hd_parent_qc (go_header g))"
    and "hd_height (go_header g) = committed_height s + 1" "committed_height s \<noteq> u64_MAX"
    and "proposer_for (topology s) (hd_height (go_header g)) (hd_round (go_header g)) = Some (hd_proposer (go_header g))"
    and "hd_is_fallback (go_header g)"
    and "\<not> hm_contains (pending_blocks s) (header_hash E (go_header g))"
    and "hm_get (vote_sets s) (header_hash E (go_header g)) = None"
    and "\<not> hm_contains (voted_heights s) (hd_height (go_header g))"
  shows "votes_cast (snd (on_block_header E g m c s))
    = [(hd_height (go_header g), hd_round (go_header g), header_hash E (go_header g))]"
proof -
  let ?hd = "go_header g" let ?h = "header_hash E (go_header g)"
  let ?v = "if hd_round ?hd > view s then s\<lparr>view := hd_round ?hd\<rparr> else s"
  have learn: "learn_from_header ?hd s = (?v, [])" using assms(2) by (simp add: learn_from_header_def)
  have "committed_height s < committed_height s + 1" using assms(4) by (simp add: word_Suc_no_wrap)
  then have valid: "validate_header ?v ?hd = None"
    using assms(2,3,5,6) by (simp add: validate_header_def validate_timestamp_def Let_def)
  define s2 where "s2 = record_header_activity (hd_height ?hd) (hd_round ?hd) ?v"
  have s2: "pending_blocks s2 = pending_blocks s" "vote_sets s2 = vote_sets s" "voted_heights s2 = voted_heights s"
    by (simp_all add: s2_def record_header_activity_def)
  define s3 where "s3 = store_pending E ?h (pending_from_gossip g m c) s2"
  have trig: "maybe_trigger_vote_verification ?h s3 = (s3, [])"
    using assms(8) by (simp add: maybe_trigger_vote_verification_def s3_def store_pending_def s2 hm_modify_def)
  obtain p b where p: "construct_block (pending_from_gossip g m c) = (p, Inr b)" "is_complete (pending_from_gossip g m c)"
    "constructed_block p = Some b" "pb_header p = ?hd" "bl_header b = ?hd"
    "all_transactions b = []" "bl_certificates b = []" "bl_deferred b = []" "bl_aborted b = []"
    using pending_from_bare [OF assms(1)] by blast
  let ?s4 = "s3\<lparr>pending_blocks := hm_insert ?h p (pending_blocks s3)\<rparr>"
  have vh: "voted_heights ?s4 = voted_heights s" by (simp add: s3_def store_pending_def s2)
  have "construct_and_vote E ?h s3 = trigger_qc_verification_or_vote E ?h ?s4"
    using p(1,2) by (simp add: construct_and_vote_def s3_def store_pending_def hm_get_insert)
  also have "\<dots> = try_vote_on_block E ?h (hd_height ?hd) (hd_round ?hd) ?s4"
    using assms(2) by (simp add: trigger_qc_verification_or_vote_def hm_get_insert p(4) Let_def)
  also have "\<dots> = create_vote E ?h (hd_height ?hd) (hd_round ?hd) ?s4"
    using assms(9) p by (intro try_vote_bare) (simp_all add: hm_get_insert vh)
  finally show ?thesis
    using assms(7) by (simp add: on_block_header_def learn valid s2_def [symmetric] s2 s3_def [symmetric] trig then_do_simps Let_def)
qed

theorem genesis_certificate_gets_vote_witness:
  "votes_cast (snd (on_block_header demo_env (gossip_new ((demo_header 6 0 qc_genesis)\<lparr>hd_is_fallback := True, hd_parent_hash := 9\<rparr>) [] [] [])
      hm_empty hm_empty demo_far)) = [(6, 0, 1)]"
proof -
  let ?hd = "(demo_header 6 0 qc_genesis)\<lparr>hd_is_fallback := True, hd_parent_hash := 9\<rparr>"
  have "proposer_for demo_topology 6 0 = Some 0" by code_simp
  then have leader: "proposer_for (topology demo_far) 6 0 = Some 0" by (simp add: demo_far_def demo_state_def bft_new_def)
  have hash: "header_hash demo_env ?hd = 1" by (simp add: header_hash_def demo_env_def demo_header_def)
  show ?thesis
    using genesis_certificate_gets_vote [of "gossip_new ?hd [] [] []" demo_far demo_env hm_empty hm_empty] leader hash
    by (simp add: bare_def gossip_new_def gossip_full_def demo_far_def demo_state_simps hm_contains_def demo_fresh,
        simp add: demo_header_def demo_state_def bft_new_def)
qed

text \<open>
  C23: a timestamp that is checked is accepted exactly when it lies between the local clock minus
  the maximal delay and the local clock plus the maximal rush, provided the upper end fits into
  64 bits.
\<close>

theorem timestamp_window:
  assumes "\<not> header_is_genesis h" "\<not> hd_is_fallback h"
    and "unat (as_millis_u64 (now s)) + unat (cfg_max_timestamp_rush_ms (config s)) \<le> 18446744073709551615"
  shows "validate_timestamp s h = None \<longleftrightarrow>
     unat (as_millis_u64 (now s)) - unat (cfg_max_timestamp_delay_ms (config s)) \<le> unat (hd_timestamp h)
     \<and> unat (hd_timestamp h) \<le> unat (as_millis_u64 (now s)) + unat (cfg_max_timestamp_rush_ms (config s))"
  using assms unat_add_u64 [OF assms(3)]
  by (auto simp: validate_timestamp_def Let_def word_less_nat_alt unat_saturating_sub not_less)

theorem timestamp_window_witness: "validate_timestamp demo_state (demo_header 1 0 qc_genesis) = None"
  using timestamp_window [of "demo_header 1 0 qc_genesis" demo_state]
  by (simp add: demo_state_def bft_new_def bft_config_default_def demo_header_def header_is_genesis_def as_millis_u64_def)

section \<open>Voting\<close>

text \<open>
  C3: a vote cast on the arrival of a block whose content the node has is checked and recorded: it
  is cast only if no vote is recorded for the height and the content passed the checks of
  deferrals, aborts and transaction order; exactly one vote goes out, for this block; it is
  recorded as the node's vote of the height, and after it no other arrival at that height does
  anything.
\<close>

theorem arrival_vote_checked:
  assumes "pending_content s h = Some b"
    and "votes_cast (snd (try_vote_on_block E h height round s)) \<noteq> []"
  shows "\<not> hm_contains (voted_heights s) height
    \<and> validate_deferrals_and_aborts b = None \<and> validate_transaction_ordering b = None
    \<and> votes_cast (snd (try_vote_on_block E h height round s)) = [(height, round, h)]
    \<and> hm_get (voted_heights (fst (try_vote_on_block E h height round s))) height = Some (h, round)
    \<and> (\<forall>h' round'. try_vote_on_block E h' height round' (fst (try_vote_on_block E h height round s))
          = (fst (try_vote_on_block E h height round s), []))"
proof -
  note v = try_vote_casts [OF assms(2)]
  have "hm_contains (voted_heights (fst (try_vote_on_block E h height round s))) height"
    using v(3) by (simp add: hm_contains_def)
  then show ?thesis using v(1,2,3) v(4) [OF assms(1)] try_vote_silent by blast
qed

theorem arrival_vote_checked_witness:
  "hm_get (voted_heights (fst (try_vote_on_block demo_env 2 1 0 demo_aborting))) 1 = Some (2, 0)
   \<and> snd (try_vote_on_block demo_env 3 1 1 (fst (try_vote_on_block demo_env 2 1 0 demo_aborting))) = []"
proof -
  let ?b = "(demo_block (demo_header 1 0 qc_genesis))\<lparr>bl_aborted := [\<lparr>ta_tx_hash = 8, ta_reason = TooManyRetries 3, ta_block_height = 1\<rparr>]\<rparr>"
  have content: "pending_content demo_aborting 2 = Some ?b" by (simp add: pending_content_def demo_aborting_def hm_get_insert)
  have valid: "validate_deferrals_and_aborts ?b = None" "validate_transaction_ordering ?b = None"
    by (simp_all add: validate_deferrals_and_aborts_def validate_transaction_ordering_def or_else_def abort_error_def demo_block_def)
  have init: "initiate_verifications demo_env 2 ?b demo_aborting = (demo_aborting, [])"
    by (simp add: initiate_verifications_def block_needs_cycle_proof_verification_def block_needs_state_root_verification_def
        block_needs_transaction_root_verification_def transaction_count_def demo_block_def)
  have "\<not> hm_contains (voted_heights demo_aborting) 1"
    by (simp add: demo_aborting_def demo_two_blocks_def hm_contains_def demo_fresh)
  then have "votes_cast (snd (try_vote_on_block demo_env 2 1 0 demo_aborting)) \<noteq> []"
    using content by (simp add: try_vote_on_block_def pending_content_def valid init)
  from arrival_vote_checked [OF content this] show ?thesis by simp
qed

text \<open>
  C16: the callback of the transaction-root verification votes without looking at the recorded
  votes: two blocks of one height whose verifications finish one after the other both get the
  node's vote.
\<close>

theorem conflicting_callback_votes:
  assumes "hm_get (pending_blocks s) h = Some p" "constructed_block p = Some b"
      "block_hash E b = h" "only_transactions b"
    and "hm_get (pending_blocks s) h' = Some p'" "constructed_block p' = Some b'"
      "block_hash E b' = h'" "only_transactions b'"
    and "hd_height (pb_header p') = hd_height (pb_header p)"
  shows "votes_cast (snd (on_transaction_root_verified E h True s)
       @ snd (on_transaction_root_verified E h' True (fst (on_transaction_root_verified E h True s))))
     = [(hd_height (pb_header p), hd_round (pb_header p), h), (hd_height (pb_header p), hd_round (pb_header p'), h')]"
  using transaction_root_vote [OF assms(1-4)]
    transaction_root_vote(1) [of "fst (on_transaction_root_verified E h True s)" h' p' b' E] assms(5-9)
  by simp

theorem conflicting_callback_votes_witness:
  "votes_cast (snd (on_transaction_root_verified demo_env 2 True demo_two_blocks)
     @ snd (on_transaction_root_verified demo_env 3 True (fst (on_transaction_root_verified demo_env 2 True demo_two_blocks))))
   = [(1, 0, 2), (1, 1, 3)]"
  using conflicting_callback_votes [of demo_two_blocks 2 "demo_pending 0" "demo_block (demo_header 1 0 qc_genesis)" demo_env
      3 "demo_pending 1" "demo_block (demo_header 1 1 qc_genesis)"]
  by (simp add: demo_two_blocks_def demo_pending_def demo_block_def demo_header_def only_transactions_def
      block_hash_def header_hash_def demo_env_def hm_get_insert)

text \<open>
  C17: when the state root of a block with certificates, but without transactions, deferrals and
  aborts, cannot be verified yet, because the local state has not caught up with its parent, the
  verification is queued without an action and the node votes at once, before the state root is
  verified.  (With transactions in the block the vote waits for the transaction root.)
\<close>

theorem vote_before_state_root_verified:
  assumes "hm_get (pending_blocks s) h = Some p" "constructed_block p = Some b" "block_hash E b = h"
    and "bl_certificates b \<noteq> []" "bl_deferred b = []" "bl_aborted b = []" "all_transactions b = []"
    and "\<not> hm_contains (voted_heights s) height" "\<not> hm_contains (verified_state_roots s) h"
    and "get_block_by_hash E s (hd_parent_hash (bl_header b)) = Some par"
      "hd_state_root (bl_header par) \<noteq> snd (last_committed_jmt_state s)"
    and "\<not> hm_contains (state_root_verifications_in_flight s) h"
  shows "votes_cast (snd (try_vote_on_block E h height round s)) = [(height, round, h)]
    \<and> \<not> hm_contains (verified_state_roots (fst (try_vote_on_block E h height round s))) h"
  using queued_state_root_vote [OF assms] by blast

theorem vote_before_state_root_verified_witness:
  "votes_cast (snd (try_vote_on_block demo_env 3 2 0 demo_queued)) = [(2, 0, 3)]"
proof -
  have "get_block_by_hash demo_env demo_queued (hd_parent_hash (bl_header demo_queued_block)) = Some demo_queued_parent"
    by (simp add: get_block_by_hash_def demo_queued_def demo_queued_block_def demo_block_def demo_header_def demo_qc_def
        hm_get_insert)
  then show ?thesis
    using vote_before_state_root_verified [of demo_queued 3 "demo_pending_of demo_queued_block" demo_queued_block
        demo_env 2 demo_queued_parent 0]
    by (simp add: demo_queued_def demo_fresh demo_queued_block_def demo_queued_parent_def demo_block_def demo_header_def
        demo_qc_def all_transactions_def hm_contains_def block_hash_def header_hash_def demo_env_def hm_get_insert)
qed

text \<open>
  C22: adopting a certificate releases the node's recorded votes at or below the certified
  height, its own height included, and no others; the genesis certificate releases nothing.
\<close>

theorem certificate_releases_locks:
  "hm_get (voted_heights (maybe_unlock_for_qc qc s)) k =
     (if \<not> qc_is_genesis qc \<and> k \<le> qc_height qc then None else hm_get (voted_heights s) k)"
  using unlock_exactly [of qc s k] by (cases "qc_is_genesis qc") (simp_all add: maybe_unlock_for_qc_def)

section \<open>Proposing\<close>

text \<open>
  C15: the proposal timer returns: the walk from the parent of the proposal down to the committed
  height ends, if every stored block above the committed height has a header that validation
  accepted in some state, and a certificate names the height of the block it certifies where
  both are stored.
\<close>

theorem proposal_timer_terminates:
  assumes "headers_checked E s" "certificates_truthful E s"
  shows "\<exists>s' acts. on_proposal_timer E ready deferred aborted certs proofs s = Some (s', acts)"
  using walk_returns [OF links_drop_checked [OF assms], of "fst (proposal_parent s)" hm_empty]
  by (auto simp: on_proposal_timer_def Let_def)

theorem proposal_timer_terminates_witness:
  "\<exists>s' acts. on_proposal_timer demo_env ready_empty [] [] [demo_cert] hm_empty demo_two_high = Some (s', acts)"
proof -
  have "proposer_for demo_topology 1 0 = Some 0" "proposer_for demo_topology 2 0 = Some 0" by code_simp+
  moreover have "local_voting_power demo_topology = 1" by code_simp
  moreover have top: "topology demo_state = demo_topology" by (simp add: demo_state_def bft_new_def)
  moreover have "has_quorum 1 1" by (simp add: has_quorum_def)
  moreover have "validate_timestamp demo_state (demo_header k 0 qc) = None" for k qc
    by (simp add: validate_timestamp_def demo_header_def demo_state_def bft_new_def bft_config_default_def as_millis_u64_def
        saturating_sub_def)
  ultimately have "validate_header demo_state (demo_header 1 0 qc_genesis) = None"
    "validate_header demo_state (demo_header 2 0 demo_qc) = None"
    by (simp_all add: validate_header_def demo_state_simps total_voting_power_def Let_def)
      (simp_all add: demo_header_def demo_qc_def qc_is_genesis_def qc_genesis_def)
  then have "headers_checked demo_env demo_two_high"
    unfolding headers_checked_def using demo_two_high_blocks by metis
  moreover have "certificates_truthful demo_env demo_two_high"
    unfolding certificates_truthful_def
  proof (intro allI impI)
    fix h b p
    assume "get_block_by_hash demo_env demo_two_high h = Some b"
      and par: "get_block_by_hash demo_env demo_two_high (hd_parent_hash (bl_header b)) = Some p"
    then show "bl_height p = qc_height (hd_parent_qc (bl_header b))"
      using demo_two_high_blocks [of h b] demo_two_high_blocks [OF par]
      by (auto simp: demo_header_def demo_qc_def qc_genesis_def Hash_ZERO_def)
  qed
  ultimately show ?thesis by (rule proposal_timer_terminates)
qed

text \<open>
  C14: a proposal repeats no work: none of its certificates is in a block between its parent and
  the committed height, and at most the configured number of certificates is proposed.
\<close>

theorem proposed_certificates_fresh:
  assumes "on_proposal_timer E ready deferred aborted certs proofs s = Some (s', acts)"
    and "BuildProposal bp \<in> set acts"
  shows "length (bp_certificates bp) \<le> cfg_max_certificates_per_block (config s)
    \<and> (c \<in> set (bp_certificates bp) \<and> on_qc_chain E s (fst (proposal_parent s)) b \<longrightarrow>
        tc_transaction_hash c \<notin> tc_transaction_hash ` set (bl_certificates b))"
  using proposed_certificates_new [OF assms] by blast

theorem proposed_certificates_fresh_witness:
  "\<exists>acts bp. on_proposal_timer demo_env ready_empty [] [] [demo_cert] hm_empty demo_chain
       = Some (demo_chain\<lparr>pending_proposal_opt := Some \<lparr>pp_height = 2, pp_round = 0\<rparr>\<rparr>, acts)
     \<and> BuildProposal bp \<in> set acts \<and> bp_certificates bp = [demo_cert] \<and> length (bp_certificates bp) \<le> 4096"
proof -
  obtain seen where walk: "walk_qc_chain demo_env demo_chain 2 hm_empty = Some seen" and "\<not> hm_contains seen 6"
    using demo_chain_walk by blast
  define bp where "bp = make_proposal demo_env ready_empty [] [] [demo_cert] hm_empty seen demo_chain"
  define acts where "acts = [SetTimer Proposal_timer (cfg_proposal_interval (config demo_chain)), BuildProposal bp]"
  have timer: "on_proposal_timer demo_env ready_empty [] [] [demo_cert] hm_empty demo_chain
      = Some (demo_chain\<lparr>pending_proposal_opt := Some \<lparr>pp_height = 2, pp_round = 0\<rparr>\<rparr>, acts)"
    using walk by (simp add: on_proposal_timer_def acts_def bp_def demo_chain_facts Let_def)
  have certs: "bp_certificates bp = [demo_cert]"
    using \<open>\<not> hm_contains seen 6\<close>
    by (simp add: bp_def make_proposal_def certificates_to_propose_def demo_chain_facts demo_cert_def Let_def split_beta)
  show ?thesis
    using timer certs proposed_certificates_fresh [OF timer, of bp] by (auto simp: acts_def demo_chain_facts)
qed

text \<open>
  C13: the node stores its own proposal as it was built: when a proposal for the height and round
  it asked for comes back, and its transactions and its certificates have distinct hashes, the
  block is pending under its hash with its complete content, the header and the hashes of its
  content are sent to the shard, and the node votes for the block and records the vote.
\<close>

theorem own_proposal_stored:
  assumes "pending_proposal_opt s = Some \<lparr>pp_height = height, pp_round = round\<rparr>"
    and "distinct (map tx_hash (bl_retry_transactions b @ bl_priority_transactions b @ bl_transactions b))"
    and "distinct (map tc_transaction_hash (bl_certificates b))"
  shows "pending_content (fst (on_proposal_built E height round b h s)) h = Some b
    \<and> BroadcastToShard (local_shard (topology s)) (Msg_BlockHeader (own_gossip b))
        \<in> set (snd (on_proposal_built E height round b h s))
    \<and> votes_cast (snd (on_proposal_built E height round b h s)) = [(height, round, h)]
    \<and> hm_get (voted_heights (fst (on_proposal_built E height round b h s))) height = Some (h, round)"
proof -
  obtain p where p: "construct_block (own_pending b) = (p, Inr b)" "constructed_block p = Some b"
    using own_pending_constructs [OF assms(2,3)] by blast
  then show ?thesis
    using assms(1)
    by (simp add: on_proposal_built_def Let_def then_do_simps pending_content_def record_leader_activity_def hm_get_insert)
qed

theorem own_proposal_stored_witness:
  "pending_content (fst (on_proposal_built demo_env 1 0 (demo_block (demo_header 1 0 qc_genesis)) 2
      (demo_state\<lparr>pending_proposal_opt := Some \<lparr>pp_height = 1, pp_round = 0\<rparr>\<rparr>))) 2
   = Some (demo_block (demo_header 1 0 qc_genesis))"
  using own_proposal_stored [of "demo_state\<lparr>pending_proposal_opt := Some \<lparr>pp_height = 1, pp_round = 0\<rparr>\<rparr>" 1 0
      "demo_block (demo_header 1 0 qc_genesis)" demo_env 2]
  by (simp add: demo_block_def)

text \<open>
  C11: a round change always makes progress: the view goes up by one, and the proposer of the new
  round broadcasts the header of an empty fallback block for the next height and the new round
  that extends the latest certificate, votes for it, whatever it had voted for before, and
  records the vote; every other node only sets its proposal timer again and has no vote recorded
  at the next height.  So the branch of the code that proposes a locked block once more is never
  taken.
\<close>

theorem round_change_progress:
  assumes "case latest_qc s of Some qc \<Rightarrow> qc_height qc \<noteq> u64_MAX | None \<Rightarrow> committed_height s \<noteq> u64_MAX"
  shows "view (fst (advance_round E s)) = view s + 1
    \<and> (if should_propose (topology s) (next_proposal_height s) (view s + 1)
       then \<exists>header. hd_height header = next_proposal_height s \<and> hd_round header = view s + 1
           \<and> hd_parent_hash header = fst (proposal_parent s) \<and> hd_parent_qc header = snd (proposal_parent s)
           \<and> hd_proposer header = validator_id_of s \<and> hd_is_fallback header
           \<and> BroadcastToShard (local_shard (topology s)) (Msg_BlockHeader (gossip_new header [] [] [])) \<in> set (snd (advance_round E s))
           \<and> votes_cast (snd (advance_round E s)) = [(next_proposal_height s, view s + 1, header_hash E header)]
           \<and> hm_get (voted_heights (fst (advance_round E s))) (next_proposal_height s) = Some (header_hash E header, view s + 1)
       else snd (advance_round E s) = [SetTimer Proposal_timer (cfg_proposal_interval (config s))]
         \<and> \<not> hm_contains (voted_heights (fst (advance_round E s))) (next_proposal_height s))"
proof -
  let ?k = "next_proposal_height s"
  define s1 where "s1 = unlock_height ?k (s\<lparr>view := view s + 1, view_changes := view_changes s + 1\<rparr>)"
  have s1: "view s1 = view s + 1" "proposal_parent s1 = proposal_parent s" "topology s1 = topology s"
    "validator_id_of s1 = validator_id_of s" "\<not> hm_contains (voted_heights s1) ?k"
    by (simp_all add: s1_def proposal_parent_def split: option.split)
  define header where "header = empty_header E s1 ?k (view s + 1) (qc_weighted_timestamp_ms (snd (proposal_parent s1))) True"
  note hd = empty_header_fields [of E s1 ?k "view s + 1" "qc_weighted_timestamp_ms (snd (proposal_parent s1))" True, folded header_def, unfolded s1]
  note eff = broadcast_empty_block_effect [where s = s1 and header = header and E = E, unfolded s1 hd]
  show ?thesis
  proof (cases "should_propose (topology s) ?k (view s + 1)")
    case True
    then have adv: "advance_round E s = broadcast_empty_block E header s1"
      using advance_round_fallback [OF assms, of E]
      by (simp add: build_and_broadcast_fallback_block_def header_def s1_def)
    show ?thesis using True hd eff unfolding adv by auto
  next
    case False
    then have adv: "advance_round E s = (s1, [SetTimer Proposal_timer (cfg_proposal_interval (config s))])"
      using advance_round_fallback [OF assms, of E] by (simp add: s1_def)
    show ?thesis using False s1 by (simp add: adv)
  qed
qed

theorem round_change_progress_witness:
  "\<exists>header. hd_height header = 1 \<and> hd_round header = 1 \<and> hd_is_fallback header
     \<and> BroadcastToShard 0 (Msg_BlockHeader (gossip_new header [] [] [])) \<in> set (snd (advance_round demo_env demo_state))"
proof -
  have "latest_qc demo_state = None" by (simp add: demo_state_def bft_new_def recovered_default_def)
  then have height: "next_proposal_height demo_state = 1"
    and small: "case latest_qc demo_state of Some qc \<Rightarrow> qc_height qc \<noteq> u64_MAX | None \<Rightarrow> committed_height demo_state \<noteq> u64_MAX"
    by (simp_all add: demo_state_simps next_proposal_height_def)
  have top: "topology demo_state = demo_topology" "view demo_state = 0" by (simp_all add: demo_state_def bft_new_def recovered_default_def)
  have "should_propose demo_topology 1 1" "local_shard demo_topology = 0" by code_simp+
  then show ?thesis using round_change_progress [OF small, of demo_env] by (auto simp: height top)
qed

section \<open>The two-chain rule\<close>

text \<open>
  C4: a new certificate commits its parent: the node schedules the commit of exactly the block
  the certificate names as the parent of the certified one, provided that block is above the
  committed height, and schedules no other commit.
\<close>

theorem two_chain_commit:
  assumes "on_qc_formed E h qc ready deferred aborted certs proofs s = Some (s', acts)"
  shows "EnqueueInternal (BlockReadyToCommit c q) \<in> set acts \<longleftrightarrow>
     q = qc \<and> 0 < qc_height qc \<and> c = qc_parent_block_hash qc \<and> committed_height s < qc_height qc - 1"
  using assms by (rule qc_formed_commit)

theorem two_chain_commit_witness:
  "\<exists>s' acts. on_qc_formed demo_env 3 (demo_qc\<lparr>qc_height := 2, qc_parent_block_hash := 2\<rparr>) ready_empty [] [] [] hm_empty demo_state
     = Some (s', acts) \<and> EnqueueInternal (BlockReadyToCommit 2 (demo_qc\<lparr>qc_height := 2, qc_parent_block_hash := 2\<rparr>)) \<in> set acts"
proof -
  let ?qc = "demo_qc\<lparr>qc_height := 2, qc_parent_block_hash := 2\<rparr>"
  have "syncing (adopt_qc ?qc (record_leader_activity demo_state)) = False"
    by (simp add: adopt_qc_def maybe_unlock_for_qc_def Let_def record_leader_activity_def)
      (simp add: demo_state_def bft_new_def)
  then obtain s' acts where run: "on_qc_formed demo_env 3 ?qc ready_empty [] [] [] hm_empty demo_state = Some (s', acts)"
    by (simp add: on_qc_formed_def content_ready_def ready_empty_def ready_iter_def Let_def)
  then show ?thesis using two_chain_commit [OF run, of 2 ?qc] by (auto simp: demo_state_simps)
qed

end
